(* ===== verification/Prelude.thy ===== *)
theory Prelude
  imports Main "HOL-Library.Multiset" "HOL-Library.List_Lexorder" "HOL-Library.Char_ord"
begin

text \<open>
  What every component of the library shares: the development's simp collections, Go's
  machine integers (the wrap-around of \<^verbatim>\<open>int64\<close>, \<^verbatim>\<open>int32\<close> and
  \<^verbatim>\<open>uint64\<close> written out on \<^typ>\<open>int\<close> and \<^typ>\<open>nat\<close>), Go's error values with
  \<^verbatim>\<open>errors.Is\<close> and \<^verbatim>\<open>errors.Join\<close>, the iteration order of a Go map, and the
  in-place filter loop that \<^verbatim>\<open>queue.go\<close> and \<^verbatim>\<open>replay.go\<close> use on their slices.
\<close>

section \<open>Simp collections\<close>

named_theorems op_defs \<open>definitions of the operations that proofs unfold\<close>
named_theorems go_arith \<open>bounds and identities of the wrapped machine integers\<close>
named_theorems frame \<open>what an operation leaves unchanged\<close>

section \<open>Machine integers\<close>

text \<open>
  \<^verbatim>\<open>time.Duration\<close> and \<^verbatim>\<open>int\<close> are 64-bit two's complement, the attempt counter of a
  \<^verbatim>\<open>ClientEvent\<close> is 32-bit, and the order, sequence and generation counters are
  \<^verbatim>\<open>uint64\<close>. An instant (\<^verbatim>\<open>time.Time\<close>) is its number of nanoseconds.
\<close>

type_synonym duration = int
type_synonym instant = int

definition wrap_int64 :: "int \<Rightarrow> int" where
  "wrap_int64 x = (x + 2 ^ 63) mod 2 ^ 64 - 2 ^ 63"

definition wrap_int32 :: "int \<Rightarrow> int" where
  "wrap_int32 x = (x + 2 ^ 31) mod 2 ^ 32 - 2 ^ 31"

definition wrap_uint64 :: "nat \<Rightarrow> nat" where
  "wrap_uint64 n = n mod 2 ^ 64"

definition max_int64 :: int where
  "max_int64 = 2 ^ 63 - 1"

definition max_int32 :: int where
  "max_int32 = 2 ^ 31 - 1"

definition max_uint64 :: nat where
  "max_uint64 = 2 ^ 64 - 1"

lemma wrap_int64_id [go_arith]: "- max_int64 \<le> x \<Longrightarrow> x \<le> max_int64 \<Longrightarrow> wrap_int64 x = x"
  by (simp add: wrap_int64_def max_int64_def)

lemma wrap_int32_id [go_arith]: "- max_int32 \<le> x \<Longrightarrow> x \<le> max_int32 \<Longrightarrow> wrap_int32 x = x"
  by (simp add: wrap_int32_def max_int32_def)

lemma wrap_uint64_id [go_arith]: "n \<le> max_uint64 \<Longrightarrow> wrap_uint64 n = n"
  by (simp add: wrap_uint64_def max_uint64_def)

lemma wrap_uint64_Suc [go_arith]: "n < max_uint64 \<Longrightarrow> wrap_uint64 (Suc n) = Suc n"
  by (rule wrap_uint64_id) simp

lemma wrap_uint64_bound: "wrap_uint64 n \<le> max_uint64"
proof -
  have "n mod 2 ^ 64 < (2 ^ 64 :: nat)" by simp
  then show ?thesis unfolding wrap_uint64_def max_uint64_def by linarith
qed

section \<open>Errors\<close>

text \<open>
  The sentinels of \<^verbatim>\<open>bus.go\<close>, \<^verbatim>\<open>event.go\<close> and \<^verbatim>\<open>http.go\<close>, the two errors a context
  can report, \<^verbatim>\<open>errors.New\<close> values, errors made by code outside the repository, and the
  two ways the code builds an error from others: \<^verbatim>\<open>fmt.Errorf\<close> with \<^verbatim>\<open>%w\<close> and
  \<^verbatim>\<open>errors.Join\<close>. A Go \<^verbatim>\<open>error\<close> result is an \<open>err option\<close>, with \<^verbatim>\<open>nil\<close> as \<^const>\<open>None\<close>.
\<close>

datatype err =
    ErrClosed | ErrInvalidClientID | ErrNilConnection | errInactiveClient
  | ErrInvalidEvent | ErrInvalidMessage | ErrStreamingUnsupported | ErrNotSupported | ErrShortWrite
  | ContextCanceled | DeadlineExceeded
  | ErrNew string
  | ErrExternal nat
  | ErrWrap string err
  | ErrJoin "err list"

fun errors_Is :: "err \<Rightarrow> err \<Rightarrow> bool" where
  "errors_Is (ErrWrap m e) t = (ErrWrap m e = t \<or> errors_Is e t)"
| "errors_Is (ErrJoin es) t = (ErrJoin es = t \<or> (\<exists>e \<in> set es. errors_Is e t))"
| "errors_Is e t = (e = t)"

definition err_is :: "err option \<Rightarrow> err \<Rightarrow> bool" where
  "err_is r t = (case r of None \<Rightarrow> False | Some e \<Rightarrow> errors_Is e t)"

definition errors_Join :: "err option list \<Rightarrow> err option" where
  "errors_Join rs = (let es = List.map_filter id rs in if es = [] then None else Some (ErrJoin es))"

lemma err_is_None [simp]: "\<not> err_is None t"
  by (simp add: err_is_def)

lemma err_is_Some [simp]: "err_is (Some e) t = errors_Is e t"
  by (simp add: err_is_def)

lemma errors_Is_refl [simp]: "errors_Is e e"
  by (cases e) simp_all

lemma errors_Join_Nil [simp]: "errors_Join [] = None"
  by (simp add: errors_Join_def List.map_filter_def)

lemma errors_Join_None_iff: "errors_Join rs = None \<longleftrightarrow> (\<forall>r \<in> set rs. r = None)"
  by (induction rs) (auto simp: errors_Join_def List.map_filter_def Let_def split: if_splits)

section \<open>Iteration over a Go map\<close>

text \<open>
  \<^verbatim>\<open>range\<close> over a map visits each key once, in an order the language leaves open. An
  operation that ranges over a map takes the order as an argument; the laws of the operation
  hold for every function that enumerates finite sets.
\<close>

type_synonym range_order = "string set \<Rightarrow> string list"

definition enumerates :: "range_order \<Rightarrow> bool" where
  "enumerates it \<longleftrightarrow> (\<forall>S. finite S \<longrightarrow> distinct (it S) \<and> set (it S) = S)"

lemma enumerates_set [simp]: "enumerates it \<Longrightarrow> finite S \<Longrightarrow> set (it S) = S"
  by (simp add: enumerates_def)

lemma enumerates_distinct [simp]: "enumerates it \<Longrightarrow> finite S \<Longrightarrow> distinct (it S)"
  by (simp add: enumerates_def)

lemma enumerates_length [simp]: "enumerates it \<Longrightarrow> finite S \<Longrightarrow> length (it S) = card S"
  by (metis distinct_card enumerates_distinct enumerates_set)

lemma enumerates_sorted_list [simp, intro]: "enumerates sorted_list_of_set"
  by (simp add: enumerates_def)

text \<open>\<^verbatim>\<open>slices.Sort\<close> removes the freedom of the iteration order.\<close>

lemma sort_enumerates [simp]: "enumerates it \<Longrightarrow> finite S \<Longrightarrow> sort (it S) = sorted_list_of_set S"
  by (metis enumerates_distinct enumerates_set sorted_list_of_set_sort_remdups distinct_remdups_id)

section \<open>The in-place filter loop\<close>

text \<open>
  The loop \<^verbatim>\<open>kept := xs[:0]; for _, e := range xs[i:] { if keep(e) { kept = append(kept, e) } }\<close>
  writes the kept elements over the front of the array it is reading. The arguments are the
  array, the read index and the length of \<^verbatim>\<open>kept\<close>; the result is the array after the
  loop and the final length of \<^verbatim>\<open>kept\<close>.
\<close>

function inplace_filter :: "('a \<Rightarrow> bool) \<Rightarrow> 'a list \<Rightarrow> nat \<Rightarrow> nat \<Rightarrow> 'a list \<times> nat" where
  "inplace_filter keep xs i k =
     (if i < length xs
      then if keep (xs ! i) then inplace_filter keep (xs[k := xs ! i]) (Suc i) (Suc k)
           else inplace_filter keep xs (Suc i) k
      else (xs, k))"
  by pat_completeness auto
termination
  by (relation "measure (\<lambda>(keep, xs, i, k). length xs - i)") auto

declare inplace_filter.simps [simp del]

lemma take_Suc_update: "k < length xs \<Longrightarrow> take (Suc k) (xs[k := x]) = take k xs @ [x]"
  by (simp add: take_Suc_conv_app_nth)

text \<open>Writing never overtakes reading, so the loop computes the filter of what it reads.\<close>

lemma inplace_filter_correct:
  assumes "k \<le> i" and "inplace_filter keep xs i k = (ys, n)"
  shows "take n ys = take k xs @ filter keep (drop i xs) \<and> length ys = length xs
         \<and> n = k + length (filter keep (drop i xs))"
  using assms
proof (induction keep xs i k arbitrary: ys n rule: inplace_filter.induct)
  case (1 keep xs i k)
  show ?case
  proof (cases "i < length xs")
    case True
    then have split: "drop i xs = xs ! i # drop (Suc i) xs"
      by (simp add: Cons_nth_drop_Suc)
    show ?thesis
    proof (cases "keep (xs ! i)")
      case True
      with \<open>i < length xs\<close> "1.prems" have
        "inplace_filter keep (xs[k := xs ! i]) (Suc i) (Suc k) = (ys, n)"
        by (simp add: inplace_filter.simps [of keep xs i k])
      with "1.IH"(1) True \<open>i < length xs\<close> "1.prems"(1) show ?thesis
        by (auto simp: split take_Suc_update)
    next
      case False
      with \<open>i < length xs\<close> "1.prems" have "inplace_filter keep xs (Suc i) k = (ys, n)"
        by (simp add: inplace_filter.simps [of keep xs i k])
      with "1.IH"(2) False \<open>i < length xs\<close> "1.prems"(1) show ?thesis
        by (auto simp: split)
    qed
  next
    case False
    with "1.prems" show ?thesis
      by (auto simp: inplace_filter.simps [of keep xs i k])
  qed
qed

definition kept_prefix :: "('a \<Rightarrow> bool) \<Rightarrow> 'a list \<Rightarrow> nat \<Rightarrow> 'a list" where
  "kept_prefix keep xs i = (case inplace_filter keep xs i 0 of (ys, n) \<Rightarrow> take n ys)"

lemma kept_prefix_filter: "kept_prefix keep xs i = filter keep (drop i xs)"
  using inplace_filter_correct [of 0 i keep xs] by (auto simp: kept_prefix_def split: prod.split)

section \<open>Lists and options\<close>

lemma mset_swap_update:
  assumes "i < length xs" and "j < length xs"
  shows "mset (xs[i := xs ! j, j := xs ! i]) = mset xs"
  using assms mset_swap [of j xs i] by simp

lemma the_map_Some [simp]: "map (the \<circ> Some) xs = xs"
  by (induction xs) simp_all

end
