(* ===== verification/Sse_Event.thy ===== *)
theory Sse_Event
  imports Prelude
begin

text \<open>
  The events of \<^verbatim>\<open>event.go\<close>: the \<^verbatim>\<open>Event\<close> and \<^verbatim>\<open>Message\<close> structs, the constructors,
  \<^verbatim>\<open>normalizeEvent\<close>, \<^verbatim>\<open>uniqueStrings\<close> and \<^verbatim>\<open>validateEvent\<close>. A Go string is a
  sequence of bytes, as \<^typ>\<open>string\<close> is. \<^verbatim>\<open>Event.Data\<close> has type \<^verbatim>\<open>any\<close>: the bus tells
  \<^verbatim>\<open>nil\<close> and strings apart and hands every other value to a converter, so such a value is
  an opaque handle.
\<close>

section \<open>Data\<close>

datatype data = NilData | StringData string | OtherData nat

record event =
  ev_ClientIDs :: "string list"
  ev_ExcludeClientIDs :: "string list"
  ev_Name :: string
  ev_Data :: data
  ev_Retry :: duration
  ev_ID :: string
  ev_Comment :: string

record message =
  msg_Event :: string
  msg_Data :: string
  msg_HasData :: bool
  msg_Retry :: duration
  msg_ID :: string
  msg_Comment :: string

definition DefaultEvent :: string where
  "DefaultEvent = ''message''"

definition NewNamedEventWithData :: "string \<Rightarrow> data \<Rightarrow> event" where
  "NewNamedEventWithData name d =
     \<lparr>ev_ClientIDs = [], ev_ExcludeClientIDs = [], ev_Name = name, ev_Data = d,
      ev_Retry = 0, ev_ID = [], ev_Comment = []\<rparr>"

definition NewEvent :: "data \<Rightarrow> event" where
  "NewEvent d =
     \<lparr>ev_ClientIDs = [], ev_ExcludeClientIDs = [], ev_Name = DefaultEvent, ev_Data = d,
      ev_Retry = 0, ev_ID = [], ev_Comment = []\<rparr>"

definition NewNamedEvent :: "string \<Rightarrow> event" where
  "NewNamedEvent name =
     \<lparr>ev_ClientIDs = [], ev_ExcludeClientIDs = [], ev_Name = name, ev_Data = StringData [],
      ev_Retry = 0, ev_ID = [], ev_Comment = []\<rparr>"

section \<open>uniqueStrings and normalizeEvent\<close>

text \<open>The loop carries the set of seen values and the result slice.\<close>

fun unique_loop :: "string list \<Rightarrow> string set \<Rightarrow> string list \<Rightarrow> string list" where
  "unique_loop [] seen result = result"
| "unique_loop (v # vs) seen result =
     (if v \<in> seen then unique_loop vs seen result
      else unique_loop vs (insert v seen) (result @ [v]))"

definition uniqueStrings :: "string list \<Rightarrow> string list" where
  "uniqueStrings values = (if length values = 0 then [] else unique_loop values {} [])"

definition normalizeEvent :: "event \<Rightarrow> event" where
  "normalizeEvent e =
     (let e1 = (if ev_Name e = [] then e\<lparr>ev_Name := DefaultEvent\<rparr> else e)
      in e1\<lparr>ev_ClientIDs := uniqueStrings (ev_ClientIDs e1),
            ev_ExcludeClientIDs := uniqueStrings (ev_ExcludeClientIDs e1)\<rparr>)"

section \<open>validateEvent\<close>

definition ContainsAny :: "string \<Rightarrow> string \<Rightarrow> bool" where
  "ContainsAny s chars \<longleftrightarrow> (\<exists>c \<in> set s. c \<in> set chars)"

abbreviation CR :: char where "CR \<equiv> CHR 0x0D"
abbreviation LF :: char where "LF \<equiv> CHR 0x0A"
abbreviation NUL :: char where "NUL \<equiv> CHR 0x00"

definition validateEvent :: "event \<Rightarrow> err option" where
  "validateEvent e =
     (if ContainsAny (ev_Name e) [CR, LF]
      then Some (ErrWrap ''name contains a line break'' ErrInvalidEvent)
      else if ContainsAny (ev_ID e) [NUL, CR, LF]
      then Some (ErrWrap ''ID contains a null or line break'' ErrInvalidEvent)
      else if ev_Retry e < 0
      then Some (ErrWrap ''retry duration is negative'' ErrInvalidEvent)
      else None)"

section \<open>Lemmas\<close>

lemma unique_loop_result:
  "unique_loop vs seen result = result @ unique_loop vs seen []"
proof (induction vs arbitrary: seen result)
  case Nil
  then show ?case by simp
next
  case (Cons v vs)
  show ?case
  proof (cases "v \<in> seen")
    case True
    then show ?thesis using Cons.IH [of seen result] by simp
  next
    case False
    have "unique_loop vs (insert v seen) (result @ [v]) = (result @ [v]) @ unique_loop vs (insert v seen) []"
      by (rule Cons.IH)
    moreover have "unique_loop vs (insert v seen) [v] = [v] @ unique_loop vs (insert v seen) []"
      by (rule Cons.IH)
    ultimately show ?thesis using False by simp
  qed
qed

lemma set_unique_loop [simp]: "set (unique_loop vs seen []) = set vs - seen"
proof (induction vs arbitrary: seen)
  case (Cons v vs)
  show ?case
    using Cons.IH [of seen] Cons.IH [of "insert v seen"]
    by (auto simp: unique_loop_result [of vs "insert v seen" "[v]"])
qed simp

lemma distinct_unique_loop [simp]: "distinct (unique_loop vs seen [])"
proof (induction vs arbitrary: seen)
  case (Cons v vs)
  then show ?case by (simp add: unique_loop_result [of vs "insert v seen" "[v]"])
qed simp

lemma unique_loop_distinct:
  "distinct vs \<Longrightarrow> set vs \<inter> seen = {} \<Longrightarrow> unique_loop vs seen [] = vs"
proof (induction vs arbitrary: seen)
  case (Cons v vs)
  then show ?case by (simp add: unique_loop_result [of vs "insert v seen" "[v]"])
qed simp

lemma uniqueStrings_loop: "uniqueStrings vs = unique_loop vs {} []"
  by (cases vs) (simp_all add: uniqueStrings_def)

lemma set_uniqueStrings [simp]: "set (uniqueStrings vs) = set vs"
  by (simp add: uniqueStrings_loop)

lemma distinct_uniqueStrings [simp]: "distinct (uniqueStrings vs)"
  by (simp add: uniqueStrings_loop)

lemma uniqueStrings_id: "distinct vs \<Longrightarrow> uniqueStrings vs = vs"
  by (simp add: uniqueStrings_loop unique_loop_distinct)

lemma uniqueStrings_Nil_iff [simp]: "uniqueStrings vs = [] \<longleftrightarrow> vs = []"
  by (metis set_empty set_uniqueStrings)

text \<open>Deduplication keeps the first occurrence of each value: it is the mirror image of the
  library's \<^const>\<open>remdups\<close>, which keeps the last.\<close>

lemma unique_loop_remdups:
  "unique_loop vs seen [] = rev (remdups (rev (filter (\<lambda>v. v \<notin> seen) vs)))"
proof (induction vs arbitrary: seen)
  case (Cons v vs)
  have "filter (\<lambda>w. w \<notin> insert v seen) vs = filter (\<lambda>w. w \<noteq> v) (filter (\<lambda>w. w \<notin> seen) vs)"
    by (simp add: conj_commute)
  moreover have "rev (remdups (xs @ [x])) = x # rev (remdups (filter (\<lambda>w. w \<noteq> x) xs))" for x :: string and xs
    by (induction xs) auto
  ultimately show ?case
    using Cons.IH [of "insert v seen"] Cons.IH [of seen]
    by (simp add: unique_loop_result [of vs "insert v seen" "[v]"] rev_filter)
qed simp

lemma uniqueStrings_remdups: "uniqueStrings vs = rev (remdups (rev vs))"
  by (simp add: uniqueStrings_loop unique_loop_remdups)

lemma normalizeEvent_simps [simp]:
  "ev_ClientIDs (normalizeEvent e) = uniqueStrings (ev_ClientIDs e)"
  "ev_ExcludeClientIDs (normalizeEvent e) = uniqueStrings (ev_ExcludeClientIDs e)"
  "ev_Name (normalizeEvent e) = (if ev_Name e = [] then DefaultEvent else ev_Name e)"
  "ev_Data (normalizeEvent e) = ev_Data e"
  "ev_Retry (normalizeEvent e) = ev_Retry e"
  "ev_ID (normalizeEvent e) = ev_ID e"
  "ev_Comment (normalizeEvent e) = ev_Comment e"
  by (simp_all add: normalizeEvent_def Let_def)

definition normalized :: "event \<Rightarrow> bool" where
  "normalized e \<longleftrightarrow> ev_Name e \<noteq> [] \<and> distinct (ev_ClientIDs e) \<and> distinct (ev_ExcludeClientIDs e)"

lemma DefaultEvent_nonempty [simp]: "DefaultEvent \<noteq> []"
  by (simp add: DefaultEvent_def)

lemma normalized_normalizeEvent [simp]: "normalized (normalizeEvent e)"
  by (simp add: normalized_def)

lemma normalizeEvent_id: "normalized e \<Longrightarrow> normalizeEvent e = e"
  by (simp add: normalizeEvent_def normalized_def uniqueStrings_id)

lemma normalizeEvent_idem [simp]: "normalizeEvent (normalizeEvent e) = normalizeEvent e"
  by (rule normalizeEvent_id) simp

lemma validateEvent_normalize [simp]: "validateEvent (normalizeEvent e) = validateEvent e"
  by (simp add: validateEvent_def ContainsAny_def DefaultEvent_def)

lemma validateEvent_None_iff:
  "validateEvent e = None \<longleftrightarrow>
     CR \<notin> set (ev_Name e) \<and> LF \<notin> set (ev_Name e) \<and>
     NUL \<notin> set (ev_ID e) \<and> CR \<notin> set (ev_ID e) \<and> LF \<notin> set (ev_ID e) \<and> 0 \<le> ev_Retry e"
  by (auto simp: validateEvent_def ContainsAny_def)

lemma validateEvent_err: "validateEvent e = Some x \<Longrightarrow> errors_Is x ErrInvalidEvent"
  by (auto simp: validateEvent_def split: if_splits)

text \<open>Everything \<^verbatim>\<open>normalizeEvent\<close> does: the client lists keep the first occurrence of each ID and lose the rest, an empty
  name becomes the default event, nothing else changes; normalising twice changes nothing, and an event is valid exactly when
  its normal form is.\<close>

lemma normalizeEvent_spec:
  "ev_ClientIDs (normalizeEvent e) = rev (remdups (rev (ev_ClientIDs e))) \<and>
   ev_ExcludeClientIDs (normalizeEvent e) = rev (remdups (rev (ev_ExcludeClientIDs e))) \<and>
   ev_Name (normalizeEvent e) = (if ev_Name e = [] then DefaultEvent else ev_Name e) \<and>
   ev_Data (normalizeEvent e) = ev_Data e \<and> ev_Retry (normalizeEvent e) = ev_Retry e \<and> ev_ID (normalizeEvent e) = ev_ID e \<and>
   ev_Comment (normalizeEvent e) = ev_Comment e \<and>
   normalizeEvent (normalizeEvent e) = normalizeEvent e \<and> validateEvent (normalizeEvent e) = validateEvent e"
  by (simp add: uniqueStrings_remdups)

end
