(* ===== verification/Subscription.thy ===== *)
theory Subscription
  imports Sse_Event
begin

text \<open>
  The subscription registry: \<^verbatim>\<open>MemorySubscriptionRegistry\<close> of \<^verbatim>\<open>subscription.go\<close>, and the
  bus operations of \<^verbatim>\<open>bus.go\<close> that only touch a registry (\<^verbatim>\<open>Subscribe\<close>,
  \<^verbatim>\<open>SubscribeOnly\<close>, \<^verbatim>\<open>UnsubscribeFromAll\<close> and the subscription part of
  \<^verbatim>\<open>RegisterContext\<close>), written over the operations of the \<^verbatim>\<open>SubscriptionRegistry\<close>
  interface they call. The locale \<open>subscription_registry\<close> is that interface: its laws are what
  the bus relies on, the effect of the bus operations is proved once inside it, and the
  in-memory registry is an interpretation for every iteration order of Go maps.
\<close>

section \<open>The in-memory registry\<close>

text \<open>The inner \<^verbatim>\<open>map[string]struct{}\<close> is a set of client IDs; a nil outer map reads as
  the empty map, and \<^verbatim>\<open>Subscribe\<close> makes one.\<close>

record memory_registry =
  subs :: "string \<rightharpoonup> string set"

definition NewMemorySubscriptionRegistry :: memory_registry where
  "NewMemorySubscriptionRegistry = \<lparr>subs = Map.empty\<rparr>"

definition Registry_Subscribe :: "string \<Rightarrow> string \<Rightarrow> memory_registry \<Rightarrow> memory_registry" where
  "Registry_Subscribe clientID event r =
     (let clients = (case subs r event of None \<Rightarrow> {} | Some S \<Rightarrow> S)
      in r\<lparr>subs := (subs r)(event \<mapsto> insert clientID clients)\<rparr>)"

definition Registry_Unsubscribe :: "string \<Rightarrow> string \<Rightarrow> memory_registry \<Rightarrow> memory_registry" where
  "Registry_Unsubscribe clientID event r =
     (case subs r event of
        None \<Rightarrow> r
      | Some clients \<Rightarrow>
          (let clients' = clients - {clientID}
           in if clients' = {} then r\<lparr>subs := (subs r)(event := None)\<rparr>
              else r\<lparr>subs := (subs r)(event \<mapsto> clients')\<rparr>))"

text \<open>The range loop visits every event once and changes only that event's entry.\<close>

definition Registry_UnsubscribeAll :: "string \<Rightarrow> memory_registry \<Rightarrow> memory_registry" where
  "Registry_UnsubscribeAll clientID r =
     r\<lparr>subs := (\<lambda>event. case subs r event of
         None \<Rightarrow> None
       | Some clients \<Rightarrow>
           (let clients' = clients - {clientID} in if clients' = {} then None else Some clients'))\<rparr>"

definition Registry_IsSubscribed :: "string \<Rightarrow> string \<Rightarrow> memory_registry \<Rightarrow> bool" where
  "Registry_IsSubscribed clientID event r =
     (case subs r event of None \<Rightarrow> False | Some clients \<Rightarrow> clientID \<in> clients)"

definition Registry_AllEvents :: "range_order \<Rightarrow> memory_registry \<Rightarrow> string list" where
  "Registry_AllEvents it r = it (dom (subs r))"

definition Registry_AllSubscriptions :: "range_order \<Rightarrow> memory_registry \<Rightarrow> (string \<rightharpoonup> string list)" where
  "Registry_AllSubscriptions it r = (\<lambda>event. map_option it (subs r event))"

definition Registry_Subscribers :: "range_order \<Rightarrow> string \<Rightarrow> memory_registry \<Rightarrow> string list" where
  "Registry_Subscribers it event r =
     (case subs r event of None \<Rightarrow> [] | Some clients \<Rightarrow> it clients)"

definition Registry_CountSubscribers :: "string \<Rightarrow> memory_registry \<Rightarrow> nat" where
  "Registry_CountSubscribers event r =
     (case subs r event of None \<Rightarrow> 0 | Some clients \<Rightarrow> card clients)"

definition Registry_HasSubscribers :: "string \<Rightarrow> memory_registry \<Rightarrow> bool" where
  "Registry_HasSubscribers event r \<longleftrightarrow> Registry_CountSubscribers event r > 0"

text \<open>Go maps are finite, and no operation leaves an event with an empty set of clients.\<close>

definition registry_ok :: "memory_registry \<Rightarrow> bool" where
  "registry_ok r \<longleftrightarrow> finite (dom (subs r)) \<and> (\<forall>S \<in> ran (subs r). finite S \<and> S \<noteq> {})"

section \<open>The bus operations over a registry\<close>

definition subscribe_events ::
  "(string \<Rightarrow> string \<Rightarrow> 'r \<Rightarrow> 'r) \<Rightarrow> string \<Rightarrow> string list \<Rightarrow> 'r \<Rightarrow> 'r" where
  "subscribe_events subscribe clientID events r =
     (let events1 = (if length events = 0 then [DefaultEvent] else events)
      in fold (\<lambda>event r. if event \<noteq> [] then subscribe clientID event r else r) events1 r)"

definition unsubscribe_from_all ::
  "(string \<Rightarrow> 'r \<Rightarrow> 'r) \<Rightarrow> ('r \<Rightarrow> string list) \<Rightarrow> (string \<Rightarrow> string \<Rightarrow> 'r \<Rightarrow> 'r) \<Rightarrow>
   string \<Rightarrow> string list \<Rightarrow> 'r \<Rightarrow> 'r" where
  "unsubscribe_from_all unsubscribe_all all_events unsubscribe clientID keepEvents r =
     (if length keepEvents = 0 then unsubscribe_all clientID r
      else fold (\<lambda>event r. if event \<notin> set keepEvents then unsubscribe clientID event r else r)
             (all_events r) r)"

definition subscribe_only ::
  "(string \<Rightarrow> string \<Rightarrow> 'r \<Rightarrow> 'r) \<Rightarrow> (string \<Rightarrow> 'r \<Rightarrow> 'r) \<Rightarrow> ('r \<Rightarrow> string list) \<Rightarrow>
   (string \<Rightarrow> string \<Rightarrow> 'r \<Rightarrow> 'r) \<Rightarrow> string \<Rightarrow> string \<Rightarrow> 'r \<Rightarrow> 'r" where
  "subscribe_only subscribe unsubscribe_all all_events unsubscribe clientID event r =
     subscribe_events subscribe clientID [event]
       (unsubscribe_from_all unsubscribe_all all_events unsubscribe clientID [event] r)"

text \<open>The subscription changes of one registration (\<^verbatim>\<open>RegisterContext\<close>): drop what a
  replacing registration does not list, then subscribe to each listed event.\<close>

definition register_subscriptions ::
  "(string \<Rightarrow> string \<Rightarrow> 'r \<Rightarrow> 'r) \<Rightarrow> (string \<Rightarrow> 'r \<Rightarrow> 'r) \<Rightarrow> ('r \<Rightarrow> string list) \<Rightarrow>
   (string \<Rightarrow> string \<Rightarrow> 'r \<Rightarrow> 'r) \<Rightarrow> string \<Rightarrow> bool \<Rightarrow> string list \<Rightarrow> 'r \<Rightarrow> 'r" where
  "register_subscriptions subscribe unsubscribe_all all_events unsubscribe clientID replace events r =
     (let r1 = (if replace
                then unsubscribe_from_all unsubscribe_all all_events unsubscribe clientID events r
                else r)
      in fold (\<lambda>event r. subscribe_events subscribe clientID [event] r) events r1)"

section \<open>The interface\<close>

locale subscription_registry =
  fixes subscribe :: "string \<Rightarrow> string \<Rightarrow> 'r \<Rightarrow> 'r"
    and unsubscribe :: "string \<Rightarrow> string \<Rightarrow> 'r \<Rightarrow> 'r"
    and unsubscribe_all :: "string \<Rightarrow> 'r \<Rightarrow> 'r"
    and is_subscribed :: "string \<Rightarrow> string \<Rightarrow> 'r \<Rightarrow> bool"
    and all_events :: "'r \<Rightarrow> string list"
    and subscribers :: "string \<Rightarrow> 'r \<Rightarrow> string list"
    and invar :: "'r \<Rightarrow> bool"
  assumes invar_subscribe: "invar r \<Longrightarrow> invar (subscribe c e r)"
    and invar_unsubscribe: "invar r \<Longrightarrow> invar (unsubscribe c e r)"
    and invar_unsubscribe_all: "invar r \<Longrightarrow> invar (unsubscribe_all c r)"
    and is_subscribed_subscribe:
      "invar r \<Longrightarrow> is_subscribed c' e' (subscribe c e r) \<longleftrightarrow> (c' = c \<and> e' = e) \<or> is_subscribed c' e' r"
    and is_subscribed_unsubscribe:
      "invar r \<Longrightarrow> is_subscribed c' e' (unsubscribe c e r) \<longleftrightarrow> \<not> (c' = c \<and> e' = e) \<and> is_subscribed c' e' r"
    and is_subscribed_unsubscribe_all:
      "invar r \<Longrightarrow> is_subscribed c' e' (unsubscribe_all c r) \<longleftrightarrow> c' \<noteq> c \<and> is_subscribed c' e' r"
    and set_all_events: "invar r \<Longrightarrow> set (all_events r) = {e. \<exists>c. is_subscribed c e r}"
    and set_subscribers: "invar r \<Longrightarrow> set (subscribers e r) = {c. is_subscribed c e r}"
    and distinct_subscribers: "invar r \<Longrightarrow> distinct (subscribers e r)"
begin

lemma fold_subscribe:
  "invar r \<Longrightarrow>
   (let r' = fold (\<lambda>event r. if event \<noteq> [] then subscribe c event r else r) es r in
      invar r' \<and>
      (\<forall>c' e'. is_subscribed c' e' r' \<longleftrightarrow> (c' = c \<and> e' \<noteq> [] \<and> e' \<in> set es) \<or> is_subscribed c' e' r))"
proof (induction es arbitrary: r)
  case (Cons e es)
  let ?r1 = "if e \<noteq> [] then subscribe c e r else r"
  have "invar ?r1" using Cons.prems by (simp add: invar_subscribe)
  from Cons.IH [OF this] Cons.prems show ?case
    by (auto simp: Let_def is_subscribed_subscribe)
qed simp

lemma subscribe_events_invar: "invar r \<Longrightarrow> invar (subscribe_events subscribe c es r)"
  using fold_subscribe [of r c] by (simp add: subscribe_events_def Let_def)

lemma subscribe_events_iff:
  "invar r \<Longrightarrow> is_subscribed c' e' (subscribe_events subscribe c es r) \<longleftrightarrow>
     (c' = c \<and> e' \<noteq> [] \<and> e' \<in> set (if es = [] then [DefaultEvent] else es)) \<or> is_subscribed c' e' r"
  using fold_subscribe [of r c] by (simp add: subscribe_events_def Let_def)

lemma fold_unsubscribe:
  "invar r \<Longrightarrow>
   (let r' = fold (\<lambda>event r. if event \<notin> K then unsubscribe c event r else r) es r in
      invar r' \<and>
      (\<forall>c' e'. is_subscribed c' e' r' \<longleftrightarrow> \<not> (c' = c \<and> e' \<notin> K \<and> e' \<in> set es) \<and> is_subscribed c' e' r))"
proof (induction es arbitrary: r)
  case (Cons e es)
  let ?r1 = "if e \<notin> K then unsubscribe c e r else r"
  have "invar ?r1" using Cons.prems by (simp add: invar_unsubscribe)
  from Cons.IH [OF this] Cons.prems show ?case
    by (auto simp: Let_def is_subscribed_unsubscribe)
qed simp

lemma unsubscribe_from_all_invar:
  "invar r \<Longrightarrow> invar (unsubscribe_from_all unsubscribe_all all_events unsubscribe c keep r)"
  using fold_unsubscribe [of r "set keep" c]
  by (auto simp: unsubscribe_from_all_def Let_def invar_unsubscribe_all)

lemma unsubscribe_from_all_iff:
  "invar r \<Longrightarrow>
   is_subscribed c' e' (unsubscribe_from_all unsubscribe_all all_events unsubscribe c keep r) \<longleftrightarrow>
     (c' = c \<longrightarrow> e' \<in> set keep) \<and> is_subscribed c' e' r"
  using fold_unsubscribe [of r "set keep" c "all_events r"]
  by (auto simp: unsubscribe_from_all_def Let_def is_subscribed_unsubscribe_all set_all_events)

lemma subscribe_only_invar:
  "invar r \<Longrightarrow> invar (subscribe_only subscribe unsubscribe_all all_events unsubscribe c e r)"
  by (simp add: subscribe_only_def subscribe_events_invar unsubscribe_from_all_invar)

lemma subscribe_only_iff:
  "invar r \<Longrightarrow> e \<noteq> [] \<Longrightarrow>
   is_subscribed c' e' (subscribe_only subscribe unsubscribe_all all_events unsubscribe c e r) \<longleftrightarrow>
     (if c' = c then e' = e else is_subscribed c' e' r)"
  by (auto simp: subscribe_only_def subscribe_events_iff unsubscribe_from_all_iff unsubscribe_from_all_invar)

lemma register_fold:
  "invar r \<Longrightarrow>
   (let r' = fold (\<lambda>event r. subscribe_events subscribe c [event] r) es r in
      invar r' \<and>
      (\<forall>c' e'. is_subscribed c' e' r' \<longleftrightarrow> (c' = c \<and> e' \<noteq> [] \<and> e' \<in> set es) \<or> is_subscribed c' e' r))"
proof (induction es arbitrary: r)
  case (Cons e es)
  from Cons.IH [of "subscribe_events subscribe c [e] r"] Cons.prems show ?case
    by (auto simp: Let_def subscribe_events_iff subscribe_events_invar)
qed simp

lemma register_subscriptions_invar:
  "invar r \<Longrightarrow>
   invar (register_subscriptions subscribe unsubscribe_all all_events unsubscribe c replace es r)"
  using register_fold by (simp add: register_subscriptions_def Let_def unsubscribe_from_all_invar)

lemma register_subscriptions_iff:
  "invar r \<Longrightarrow>
   is_subscribed c' e' (register_subscriptions subscribe unsubscribe_all all_events unsubscribe c replace es r) \<longleftrightarrow>
     (c' = c \<and> e' \<noteq> [] \<and> e' \<in> set es) \<or> (is_subscribed c' e' r \<and> (c' = c \<and> replace \<longrightarrow> e' \<in> set es))"
  using register_fold by (auto simp: register_subscriptions_def Let_def unsubscribe_from_all_invar unsubscribe_from_all_iff)

end

section \<open>The in-memory registry satisfies the interface\<close>

lemma registry_ok_New [simp]: "registry_ok NewMemorySubscriptionRegistry"
  by (simp add: registry_ok_def NewMemorySubscriptionRegistry_def)

lemma registry_okD: "registry_ok r \<Longrightarrow> subs r e = Some S \<Longrightarrow> finite S \<and> S \<noteq> {}"
  by (auto simp: registry_ok_def ran_def)

lemma registry_ok_finite [simp]: "registry_ok r \<Longrightarrow> finite (dom (subs r))"
  by (simp add: registry_ok_def)

lemma registry_okI:
  "finite (dom (subs r)) \<Longrightarrow> (\<And>e S. subs r e = Some S \<Longrightarrow> finite S \<and> S \<noteq> {}) \<Longrightarrow> registry_ok r"
  by (fastforce simp: registry_ok_def ran_def)

lemma registry_ok_Subscribe [simp]:
  assumes "registry_ok r" shows "registry_ok (Registry_Subscribe c e r)"
proof (rule registry_okI)
  show "finite (dom (subs (Registry_Subscribe c e r)))"
    using assms by (simp add: Registry_Subscribe_def Let_def)
qed (use registry_okD [OF assms] in \<open>auto simp: Registry_Subscribe_def Let_def split: if_splits option.splits\<close>)

lemma registry_ok_Unsubscribe [simp]:
  assumes "registry_ok r" shows "registry_ok (Registry_Unsubscribe c e r)"
proof (rule registry_okI)
  show "finite (dom (subs (Registry_Unsubscribe c e r)))"
    using assms by (auto simp: Registry_Unsubscribe_def Let_def split: option.split)
qed (use registry_okD [OF assms] in \<open>auto simp: Registry_Unsubscribe_def Let_def split: if_splits option.splits\<close>)

lemma registry_ok_UnsubscribeAll [simp]:
  assumes "registry_ok r" shows "registry_ok (Registry_UnsubscribeAll c r)"
proof (rule registry_okI)
  have "dom (subs (Registry_UnsubscribeAll c r)) \<subseteq> dom (subs r)"
    by (auto simp: Registry_UnsubscribeAll_def Let_def split: option.splits if_splits)
  then show "finite (dom (subs (Registry_UnsubscribeAll c r)))"
    using assms finite_subset registry_ok_finite by blast
qed (use registry_okD [OF assms] in \<open>auto simp: Registry_UnsubscribeAll_def Let_def split: if_splits option.splits\<close>)

lemma IsSubscribed_Subscribe:
  "Registry_IsSubscribed c' e' (Registry_Subscribe c e r) \<longleftrightarrow>
     (c' = c \<and> e' = e) \<or> Registry_IsSubscribed c' e' r"
  by (auto simp: Registry_IsSubscribed_def Registry_Subscribe_def Let_def split: option.splits)

lemma IsSubscribed_Unsubscribe:
  "Registry_IsSubscribed c' e' (Registry_Unsubscribe c e r) \<longleftrightarrow>
     \<not> (c' = c \<and> e' = e) \<and> Registry_IsSubscribed c' e' r"
  by (auto simp: Registry_IsSubscribed_def Registry_Unsubscribe_def Let_def split: option.splits if_splits)

lemma IsSubscribed_UnsubscribeAll:
  "Registry_IsSubscribed c' e' (Registry_UnsubscribeAll c r) \<longleftrightarrow>
     c' \<noteq> c \<and> Registry_IsSubscribed c' e' r"
  by (auto simp: Registry_IsSubscribed_def Registry_UnsubscribeAll_def Let_def split: option.splits if_splits)

lemma dom_subs_iff:
  "registry_ok r \<Longrightarrow> e \<in> dom (subs r) \<longleftrightarrow> (\<exists>c. Registry_IsSubscribed c e r)"
  by (cases "subs r e") (auto simp: Registry_IsSubscribed_def dest: registry_okD)

lemma set_AllEvents:
  "enumerates it \<Longrightarrow> registry_ok r \<Longrightarrow>
   set (Registry_AllEvents it r) = {e. \<exists>c. Registry_IsSubscribed c e r}"
  using dom_subs_iff [of r] by (auto simp: Registry_AllEvents_def)

lemma set_Subscribers:
  "enumerates it \<Longrightarrow> registry_ok r \<Longrightarrow>
   set (Registry_Subscribers it e r) = {c. Registry_IsSubscribed c e r}"
  using registry_okD [of r e]
  by (cases "subs r e") (simp_all add: Registry_Subscribers_def Registry_IsSubscribed_def)

lemma distinct_Subscribers:
  "enumerates it \<Longrightarrow> registry_ok r \<Longrightarrow> distinct (Registry_Subscribers it e r)"
  using registry_okD [of r e] by (auto simp: Registry_Subscribers_def split: option.splits)

lemma memory_subscription_registry:
  "enumerates it \<Longrightarrow>
   subscription_registry Registry_Subscribe Registry_Unsubscribe Registry_UnsubscribeAll
     Registry_IsSubscribed (Registry_AllEvents it) (Registry_Subscribers it) registry_ok"
  by unfold_locales
    (simp_all add: IsSubscribed_Subscribe IsSubscribed_Unsubscribe IsSubscribed_UnsubscribeAll
      set_AllEvents set_Subscribers distinct_Subscribers)

interpretation sorted_registry: subscription_registry Registry_Subscribe Registry_Unsubscribe
  Registry_UnsubscribeAll Registry_IsSubscribed "Registry_AllEvents sorted_list_of_set"
  "Registry_Subscribers sorted_list_of_set" registry_ok
  by (rule memory_subscription_registry) simp

lemma Registry_CountSubscribers_length:
  "enumerates it \<Longrightarrow> registry_ok r \<Longrightarrow>
   Registry_CountSubscribers e r = length (Registry_Subscribers it e r)"
  using registry_okD [of r e]
  by (auto simp: Registry_CountSubscribers_def Registry_Subscribers_def split: option.splits)

end
