(* ===== verification/Replay.thy ===== *)
theory Replay
  imports Sse_Event
begin

text \<open>
  The replay store of \<^verbatim>\<open>replay.go\<close>: \<^verbatim>\<open>ReplayEvent\<close> and the four operations of
  \<^verbatim>\<open>MemoryReplayStore\<close>. The locale \<open>replay_store\<close> is the \<^verbatim>\<open>ReplayStore\<close> interface
  with a per-client history as its abstract state: storing appends, clearing empties one history,
  purging filters by age, and \<^verbatim>\<open>EventsSince\<close> resumes after the last occurrence of an ID.
\<close>

section \<open>The in-memory store\<close>

record replay_event =
  re_ClientID :: string
  re_Event :: event
  re_ConvertedValue :: string
  re_HasConverted :: bool
  re_StoredAt :: instant

record memory_replay_store =
  rs_events :: "string \<rightharpoonup> replay_event list"

definition NewMemoryReplayStore :: memory_replay_store where
  "NewMemoryReplayStore = \<lparr>rs_events = Map.empty\<rparr>"

text \<open>The slice a map lookup yields: a missing key gives the nil slice.\<close>

definition slice_of :: "memory_replay_store \<Rightarrow> string \<Rightarrow> replay_event list" where
  "slice_of s clientID = (case rs_events s clientID of None \<Rightarrow> [] | Some es \<Rightarrow> es)"

definition normalizeReplay :: "replay_event \<Rightarrow> replay_event" where
  "normalizeReplay re = re\<lparr>re_Event := normalizeEvent (re_Event re)\<rparr>"

definition ReplayStore_Store :: "replay_event \<Rightarrow> memory_replay_store \<Rightarrow> memory_replay_store" where
  "ReplayStore_Store event s =
     (let event1 = normalizeReplay event; cid = re_ClientID event1
      in s\<lparr>rs_events := (rs_events s)(cid \<mapsto> slice_of s cid @ [event1])\<rparr>)"

text \<open>\<^verbatim>\<open>slices.Backward\<close> from index \<open>length - 1\<close>: one past the last index holding the ID,
  and 0 when there is none.\<close>

fun resume_index :: "string \<Rightarrow> replay_event list \<Rightarrow> nat \<Rightarrow> nat" where
  "resume_index lastEventID events 0 = 0"
| "resume_index lastEventID events (Suc i) =
     (if ev_ID (re_Event (events ! i)) = lastEventID then Suc i else resume_index lastEventID events i)"

definition ReplayStore_EventsSince :: "string \<Rightarrow> string \<Rightarrow> memory_replay_store \<Rightarrow> replay_event list" where
  "ReplayStore_EventsSince clientID lastEventID s =
     (let events = slice_of s clientID
      in if length events = 0 then []
         else let start = (if lastEventID \<noteq> [] then resume_index lastEventID events (length events) else 0)
              in map normalizeReplay (drop start events))"

definition ReplayStore_ClearClient :: "string \<Rightarrow> memory_replay_store \<Rightarrow> memory_replay_store" where
  "ReplayStore_ClearClient clientID s = s\<lparr>rs_events := (rs_events s)(clientID := None)\<rparr>"

text \<open>Each history is filtered in place; a history left empty is deleted.\<close>

definition ReplayStore_PurgeExpired :: "instant \<Rightarrow> memory_replay_store \<Rightarrow> memory_replay_store" where
  "ReplayStore_PurgeExpired before s =
     s\<lparr>rs_events := (\<lambda>cid. case rs_events s cid of
         None \<Rightarrow> None
       | Some events \<Rightarrow>
           (let kept = kept_prefix (\<lambda>e. \<not> re_StoredAt e < before) events 0
            in if length kept = 0 then None else Some kept))\<rparr>"

text \<open>What every operation keeps: stored events are normalised and filed under their client,
  and no history is empty.\<close>

definition store_ok :: "memory_replay_store \<Rightarrow> bool" where
  "store_ok s \<longleftrightarrow> (\<forall>cid es. rs_events s cid = Some es \<longrightarrow>
     es \<noteq> [] \<and> (\<forall>e \<in> set es. re_ClientID e = cid \<and> normalized (re_Event e)))"

section \<open>Resuming after the last occurrence of an ID\<close>

text \<open>The reference definition: drop everything up to and including the last event with the ID.\<close>

definition after_last :: "string \<Rightarrow> replay_event list \<Rightarrow> replay_event list" where
  "after_last i es =
     (if \<exists>e \<in> set es. ev_ID (re_Event e) = i
      then rev (takeWhile (\<lambda>e. ev_ID (re_Event e) \<noteq> i) (rev es)) else es)"

lemma resume_index_le: "resume_index i es n \<le> n"
  by (induction n) auto

lemma resume_index_above: "resume_index i es n \<le> k \<Longrightarrow> k < n \<Longrightarrow> ev_ID (re_Event (es ! k)) \<noteq> i"
  by (induction n) (auto simp: less_Suc_eq split: if_splits)

lemma resume_index_hit: "0 < resume_index i es n \<Longrightarrow> ev_ID (re_Event (es ! (resume_index i es n - 1))) = i"
  by (induction n) (auto split: if_splits)

lemma drop_resume_index: "drop (resume_index i es (length es)) es = after_last i es"
proof -
  let ?n = "resume_index i es (length es)"
  let ?P = "\<lambda>e. ev_ID (re_Event e) \<noteq> i"
  have tail: "\<forall>e \<in> set (drop ?n es). ?P e"
  proof
    fix e assume "e \<in> set (drop ?n es)"
    then obtain k where "k < length es - ?n" "e = es ! (?n + k)" by (auto simp: in_set_conv_nth)
    then show "?P e" using resume_index_above [of i es "length es" "?n + k"] by simp
  qed
  show ?thesis
  proof (cases "?n = 0")
    case True
    then show ?thesis using tail by (simp add: after_last_def)
  next
    case False
    then have hit: "ev_ID (re_Event (es ! (?n - 1))) = i" and le: "?n - 1 < length es"
      using resume_index_hit [of i es "length es"] resume_index_le [of i es "length es"] by auto
    have n: "Suc (?n - 1) = ?n" using False by simp
    have "es = take (?n - 1) es @ es ! (?n - 1) # drop ?n es"
      using id_take_nth_drop [OF le] unfolding n .
    then have "rev es = rev (drop ?n es) @ es ! (?n - 1) # rev (take (?n - 1) es)"
      by (metis append.assoc append_Cons append_Nil rev.simps(2) rev_append)
    then have "takeWhile ?P (rev es) = rev (drop ?n es)"
      using tail hit by (simp add: takeWhile_append)
    then show ?thesis
      using hit le nth_mem [OF le] by (auto simp: after_last_def)
  qed
qed

lemma after_last_unknown: "\<forall>e \<in> set es. ev_ID (re_Event e) \<noteq> i \<Longrightarrow> after_last i es = es"
  by (auto simp: after_last_def)

lemma after_last_split:
  "\<forall>e \<in> set ys. ev_ID (re_Event e) \<noteq> i \<Longrightarrow> ev_ID (re_Event e) = i \<Longrightarrow> after_last i (xs @ e # ys) = ys"
  by (simp add: after_last_def takeWhile_append)

section \<open>The interface\<close>

locale replay_store =
  fixes store :: "replay_event \<Rightarrow> 's \<Rightarrow> 's"
    and events_since :: "string \<Rightarrow> string \<Rightarrow> 's \<Rightarrow> replay_event list"
    and clear_client :: "string \<Rightarrow> 's \<Rightarrow> 's"
    and purge_expired :: "instant \<Rightarrow> 's \<Rightarrow> 's"
    and history :: "'s \<Rightarrow> string \<Rightarrow> replay_event list"
    and invar :: "'s \<Rightarrow> bool"
  assumes invar_store: "invar s \<Longrightarrow> invar (store e s)"
    and invar_clear: "invar s \<Longrightarrow> invar (clear_client c s)"
    and invar_purge: "invar s \<Longrightarrow> invar (purge_expired t s)"
    and history_store: "invar s \<Longrightarrow> history (store e s) =
      (history s)(re_ClientID e := history s (re_ClientID e) @ [normalizeReplay e])"
    and history_clear: "invar s \<Longrightarrow> history (clear_client c s) = (history s)(c := [])"
    and history_purge: "invar s \<Longrightarrow> history (purge_expired t s) = (\<lambda>c. filter (\<lambda>e. t \<le> re_StoredAt e) (history s c))"
    and events_since_history: "invar s \<Longrightarrow> events_since c i s =
      (if i = [] then history s c else after_last i (history s c))"
begin

text \<open>Reading back: whatever was stored for a client after an event comes back, in order, when
  the client resumes from that event.\<close>

lemma fold_store_history:
  "invar s \<Longrightarrow> \<forall>e \<in> set es. re_ClientID e = c \<Longrightarrow>
   invar (fold store es s) \<and> history (fold store es s) = (history s)(c := history s c @ map normalizeReplay es)"
proof (induction es arbitrary: s)
  case (Cons e es)
  have "history (store e s) = (history s)(c := history s c @ [normalizeReplay e])"
    using Cons.prems by (simp add: history_store [OF Cons.prems(1)])
  then show ?case using Cons.IH [OF invar_store [OF Cons.prems(1)], of e] Cons.prems(2)
    by (simp add: fun_eq_iff)
qed simp

lemma store_resume:
  assumes "invar s" and "re_ClientID e = c" and "\<forall>e' \<in> set es. re_ClientID e' = c \<and> ev_ID (re_Event e') \<noteq> ev_ID (re_Event e)"
    and "ev_ID (re_Event e) \<noteq> []"
  shows "events_since c (ev_ID (re_Event e)) (fold store es (store e s)) = map normalizeReplay es"
proof -
  have inv: "invar (store e s)" by (rule invar_store [OF assms(1)])
  have "invar (fold store es (store e s))"
    and "history (fold store es (store e s)) c = history s c @ normalizeReplay e # map normalizeReplay es"
    using fold_store_history [OF inv, of es c] assms by (simp_all add: history_store)
  moreover have "after_last (ev_ID (re_Event e)) (history s c @ normalizeReplay e # map normalizeReplay es) = map normalizeReplay es"
    by (rule after_last_split) (use assms(3) in \<open>auto simp: normalizeReplay_def\<close>)
  ultimately show ?thesis using assms(4) by (simp add: events_since_history)
qed

text \<open>Clearing and purging commute with reading: a purged store yields a sub-list of the history.\<close>

lemma events_since_clear: "invar s \<Longrightarrow> events_since c i (clear_client c s) = []"
  by (simp add: events_since_history invar_clear history_clear after_last_def)

lemma events_since_purge_recent:
  "invar s \<Longrightarrow> e \<in> set (events_since c i (purge_expired t s)) \<Longrightarrow> t \<le> re_StoredAt e"
  by (auto simp: events_since_history invar_purge history_purge after_last_def
      split: if_splits dest: set_takeWhileD)

end

section \<open>The in-memory store satisfies the interface\<close>

lemma normalizeReplay_simps [simp]:
  "re_ClientID (normalizeReplay e) = re_ClientID e"
  "re_Event (normalizeReplay e) = normalizeEvent (re_Event e)"
  "re_StoredAt (normalizeReplay e) = re_StoredAt e"
  "re_ConvertedValue (normalizeReplay e) = re_ConvertedValue e"
  "re_HasConverted (normalizeReplay e) = re_HasConverted e"
  by (simp_all add: normalizeReplay_def)

lemma normalizeReplay_id: "normalized (re_Event e) \<Longrightarrow> normalizeReplay e = e"
  by (simp add: normalizeReplay_def normalizeEvent_id)

lemma store_ok_New [simp]: "store_ok NewMemoryReplayStore"
  by (simp add: store_ok_def NewMemoryReplayStore_def)

lemma store_ok_Store [simp]: "store_ok s \<Longrightarrow> store_ok (ReplayStore_Store e s)"
  by (cases "rs_events s (re_ClientID e)")
    (auto simp: store_ok_def ReplayStore_Store_def slice_of_def Let_def)

lemma store_ok_ClearClient [simp]: "store_ok s \<Longrightarrow> store_ok (ReplayStore_ClearClient c s)"
  by (auto simp: store_ok_def ReplayStore_ClearClient_def)

lemma store_ok_PurgeExpired [simp]: "store_ok s \<Longrightarrow> store_ok (ReplayStore_PurgeExpired t s)"
  by (auto simp: store_ok_def ReplayStore_PurgeExpired_def kept_prefix_filter Let_def
      split: option.splits if_splits)

lemma slice_of_normalized: "store_ok s \<Longrightarrow> e \<in> set (slice_of s c) \<Longrightarrow> normalized (re_Event e)"
  by (cases "rs_events s c") (auto simp: store_ok_def slice_of_def)

lemma map_normalize_slice: "store_ok s \<Longrightarrow> set es \<subseteq> set (slice_of s c) \<Longrightarrow> map normalizeReplay es = es"
  by (meson map_idI normalizeReplay_id slice_of_normalized subsetD)

lemma EventsSince_history:
  assumes "store_ok s"
  shows "ReplayStore_EventsSince c i s = (if i = [] then slice_of s c else after_last i (slice_of s c))"
proof -
  have "map normalizeReplay (drop n (slice_of s c)) = drop n (slice_of s c)" for n
    by (rule map_normalize_slice [OF assms, of _ c]) (rule set_drop_subset)
  from this [of "resume_index i (slice_of s c) (length (slice_of s c))"] this [of 0] show ?thesis
    by (simp add: ReplayStore_EventsSince_def Let_def drop_resume_index) (simp add: after_last_def)
qed

interpretation memory_store: replay_store ReplayStore_Store ReplayStore_EventsSince
  ReplayStore_ClearClient ReplayStore_PurgeExpired slice_of store_ok
proof unfold_locales
  show "slice_of (ReplayStore_PurgeExpired t s) = (\<lambda>c. filter (\<lambda>e. t \<le> re_StoredAt e) (slice_of s c))" for t s
    by (rule ext) (auto simp: slice_of_def ReplayStore_PurgeExpired_def kept_prefix_filter Let_def not_less filter_empty_conv
        split: option.splits)
  show "slice_of (ReplayStore_Store e s) =
      (slice_of s)(re_ClientID e := slice_of s (re_ClientID e) @ [normalizeReplay e])" for e s
    by (rule ext) (simp add: slice_of_def ReplayStore_Store_def Let_def)
  show "slice_of (ReplayStore_ClearClient c s) = (slice_of s)(c := [])" for c s
    by (rule ext) (simp add: slice_of_def ReplayStore_ClearClient_def)
qed (simp_all add: EventsSince_history)

text \<open>C33. The backward index search of \<^verbatim>\<open>EventsSince\<close> computes the reference resumption: with no
  last event ID the whole history of the client comes back, with an ID what follows its last occurrence, and with an unknown ID
  the whole history again; every returned event belongs to the client.\<close>

theorem EventsSince_resumes:
  assumes "store_ok s"
  shows "ReplayStore_EventsSince c [] s = slice_of s c \<and>
    (i \<noteq> [] \<longrightarrow> ReplayStore_EventsSince c i s = after_last i (slice_of s c)) \<and>
    ((\<forall>e \<in> set (slice_of s c). ev_ID (re_Event e) \<noteq> i) \<longrightarrow> ReplayStore_EventsSince c i s = slice_of s c) \<and>
    (\<forall>e \<in> set (ReplayStore_EventsSince c i s). re_ClientID e = c)"
proof -
  have "re_ClientID e = c" if "e \<in> set (slice_of s c)" for e
    using that assms by (cases "rs_events s c") (auto simp: store_ok_def slice_of_def)
  moreover have "set (after_last i es) \<subseteq> set es" for es by (auto simp: after_last_def dest: set_takeWhileD)
  ultimately show ?thesis by (auto simp: EventsSince_history [OF assms] after_last_unknown)
qed

definition demo_replay :: "string \<Rightarrow> instant \<Rightarrow> replay_event" where
  "demo_replay i t =
     \<lparr>re_ClientID = ''a'', re_Event = (NewNamedEvent ''news'')\<lparr>ev_ID := i\<rparr>, re_ConvertedValue = ''x'', re_HasConverted = True,
      re_StoredAt = t\<rparr>"

definition demo_store :: memory_replay_store where
  "demo_store = fold ReplayStore_Store [demo_replay ''1'' 10, demo_replay ''2'' 20, demo_replay ''3'' 30] NewMemoryReplayStore"

lemma demo_replay_simps [simp]:
  "re_ClientID (demo_replay i t) = ''a''" "ev_ID (re_Event (demo_replay i t)) = i" "re_StoredAt (demo_replay i t) = t"
  by (simp_all add: demo_replay_def)

lemma demo_replay_normal [simp]: "normalizeReplay (demo_replay i t) = demo_replay i t"
  by (rule normalizeReplay_id)
    (simp add: demo_replay_def NewNamedEvent_def NewNamedEventWithData_def normalized_def)

lemma demo_store_ok: "store_ok demo_store"
  by (simp add: demo_store_def)

lemma demo_store_history: "slice_of demo_store ''a'' = [demo_replay ''1'' 10, demo_replay ''2'' 20, demo_replay ''3'' 30]"
  by (simp add: demo_store_def memory_store.history_store) (simp add: slice_of_def NewMemoryReplayStore_def)

theorem EventsSince_resumes_witness:
  "ReplayStore_EventsSince ''a'' ''1'' demo_store = [demo_replay ''2'' 20, demo_replay ''3'' 30] \<and>
   ReplayStore_EventsSince ''a'' ''9'' demo_store = slice_of demo_store ''a''"
proof
  have "ReplayStore_EventsSince ''a'' ''1'' demo_store = after_last ''1'' (slice_of demo_store ''a'')"
    using EventsSince_resumes [OF demo_store_ok, of "''a''" "''1''"] by (metis list.distinct(1))
  moreover have "after_last ''1'' (slice_of demo_store ''a'') = [demo_replay ''2'' 20, demo_replay ''3'' 30]"
    using after_last_split [of "[demo_replay ''2'' 20, demo_replay ''3'' 30]" "''1''" "demo_replay ''1'' 10" "[]"]
    by (simp add: demo_store_history)
  ultimately show "ReplayStore_EventsSince ''a'' ''1'' demo_store = [demo_replay ''2'' 20, demo_replay ''3'' 30]"
    by (rule trans)
  have "\<forall>e \<in> set (slice_of demo_store ''a''). ev_ID (re_Event e) \<noteq> ''9''" by (simp add: demo_store_history)
  then show "ReplayStore_EventsSince ''a'' ''9'' demo_store = slice_of demo_store ''a''"
    using EventsSince_resumes [OF demo_store_ok, of "''a''" "''9''"] by blast
qed

text \<open>C34. Store and resume round trip: what is stored for a client after an event with a unique ID comes back,
  normalised, in order and complete, when the client resumes from that ID; the histories of other clients do not
  change.\<close>

theorem store_resume_roundtrip:
  assumes "store_ok s" and "re_ClientID e = c" and "ev_ID (re_Event e) \<noteq> []"
    and "\<forall>e' \<in> set es. re_ClientID e' = c \<and> ev_ID (re_Event e') \<noteq> ev_ID (re_Event e)"
  shows "ReplayStore_EventsSince c (ev_ID (re_Event e)) (fold ReplayStore_Store es (ReplayStore_Store e s)) =
      map normalizeReplay es \<and>
    (\<forall>c' i. c' \<noteq> c \<longrightarrow> ReplayStore_EventsSince c' i (fold ReplayStore_Store es (ReplayStore_Store e s)) = ReplayStore_EventsSince c' i s)"
proof
  show "ReplayStore_EventsSince c (ev_ID (re_Event e)) (fold ReplayStore_Store es (ReplayStore_Store e s)) = map normalizeReplay es"
    by (rule memory_store.store_resume [OF assms(1,2,4,3)])
  show "\<forall>c' i. c' \<noteq> c \<longrightarrow> ReplayStore_EventsSince c' i (fold ReplayStore_Store es (ReplayStore_Store e s)) = ReplayStore_EventsSince c' i s"
    using memory_store.fold_store_history [OF store_ok_Store [OF assms(1), of e], of es c] assms
    by (simp add: EventsSince_history memory_store.history_store)
qed

theorem store_resume_roundtrip_witness:
  "ReplayStore_EventsSince ''a'' ''4'' (fold ReplayStore_Store [demo_replay ''5'' 50] (ReplayStore_Store (demo_replay ''4'' 40) demo_store)) =
     [demo_replay ''5'' 50]"
  using store_resume_roundtrip [OF demo_store_ok, of "demo_replay ''4'' 40" "''a''" "[demo_replay ''5'' 50]"]
  by simp

text \<open>\<^verbatim>\<open>PurgeExpired\<close>, which filters each slice in place, keeps exactly the events stored at or after
  the limit, in order, for every client; \<^verbatim>\<open>ClearClient\<close> empties one history and no other. Neither leaves
  an empty history behind.\<close>

lemma purge_clear_exact:
  assumes "store_ok s"
  shows "slice_of (ReplayStore_PurgeExpired t s) c = filter (\<lambda>e. t \<le> re_StoredAt e) (slice_of s c) \<and>
    store_ok (ReplayStore_PurgeExpired t s) \<and>
    slice_of (ReplayStore_ClearClient c s) c' = (if c' = c then [] else slice_of s c') \<and>
    store_ok (ReplayStore_ClearClient c s)"
  using assms by (simp add: memory_store.history_purge memory_store.history_clear)

end
