(* ===== verification/Turns.thy ===== *)
theory Turns
  imports Prelude
begin

text \<open>
  The per-client send order of \<^verbatim>\<open>bus.go\<close>: \<^verbatim>\<open>assignOrder\<close>, \<^verbatim>\<open>waitForTurn\<close>,
  \<^verbatim>\<open>finishTurn\<close>, \<^verbatim>\<open>cancelTurn\<close> and \<^verbatim>\<open>advanceCanceledLocked\<close>. The three fields
  \<^verbatim>\<open>nextOrder\<close>, \<^verbatim>\<open>nextTurn\<close> and \<^verbatim>\<open>canceledOrders\<close> implement a ticket dispenser:
  its abstract state is the set of tickets that are out (given, not finished, not cancelled), and
  the ticket being served is the least of them. The locale \<open>ticket_dispenser\<close> states that contract.
\<close>

section \<open>The operations\<close>

record turns =
  nextOrder :: nat
  nextTurn :: nat
  canceledOrders :: "nat list"

definition client_assignOrder :: "'a turns_scheme \<Rightarrow> nat \<times> 'a turns_scheme" where
  "client_assignOrder c =
     (let order = wrap_uint64 (nextOrder c + 1);
          c1 = c\<lparr>nextOrder := order\<rparr>
      in (order, if nextTurn c1 = 0 then c1\<lparr>nextTurn := 1\<rparr> else c1))"

text \<open>\<^const>\<open>None\<close> is a caller that waits on the condition variable; it is woken whenever the
  turn advances and asks again.\<close>

definition client_waitForTurn :: "nat \<Rightarrow> 'a turns_scheme \<Rightarrow> bool option" where
  "client_waitForTurn order c = (if order > nextTurn c then None else Some (order = nextTurn c))"

function advanceCanceled :: "nat \<Rightarrow> nat list \<Rightarrow> nat \<times> nat list" where
  "advanceCanceled turn canceled =
     (if turn \<in> set canceled then advanceCanceled (wrap_uint64 (turn + 1)) (removeAll turn canceled)
      else (turn, canceled))"
  by pat_completeness auto
termination
  by (relation "measure (\<lambda>(turn, canceled). length canceled)") (auto intro: length_removeAll_less)

declare advanceCanceled.simps [simp del]

definition client_advanceCanceledLocked :: "'a turns_scheme \<Rightarrow> 'a turns_scheme" where
  "client_advanceCanceledLocked c =
     (case advanceCanceled (nextTurn c) (canceledOrders c) of
        (turn, canceled) \<Rightarrow> c\<lparr>nextTurn := turn, canceledOrders := canceled\<rparr>)"

definition client_finishTurn :: "nat \<Rightarrow> 'a turns_scheme \<Rightarrow> 'a turns_scheme" where
  "client_finishTurn order c =
     (if order = nextTurn c
      then client_advanceCanceledLocked (c\<lparr>nextTurn := wrap_uint64 (nextTurn c + 1)\<rparr>)
      else c)"

definition client_cancelTurn :: "nat \<Rightarrow> 'a turns_scheme \<Rightarrow> 'a turns_scheme" where
  "client_cancelTurn order c =
     (if order = 0 then c
      else if order = nextTurn c
      then client_advanceCanceledLocked (c\<lparr>nextTurn := wrap_uint64 (nextTurn c + 1)\<rparr>)
      else if order > nextTurn c then c\<lparr>canceledOrders := List.insert order (canceledOrders c)\<rparr>
      else c)"

definition new_turns :: turns where
  "new_turns = \<lparr>nextOrder = 0, nextTurn = 0, canceledOrders = []\<rparr>"

section \<open>The contract of a ticket dispenser\<close>

locale ticket_dispenser =
  fixes assign :: "'t \<Rightarrow> nat \<times> 't"
    and wait :: "nat \<Rightarrow> 't \<Rightarrow> bool option"
    and finish :: "nat \<Rightarrow> 't \<Rightarrow> 't"
    and cancel :: "nat \<Rightarrow> 't \<Rightarrow> 't"
    and out :: "'t \<Rightarrow> nat set"
    and room :: "'t \<Rightarrow> bool"
    and invar :: "'t \<Rightarrow> bool"
  assumes finite_out: "invar t \<Longrightarrow> finite (out t)"
    and assign_invar: "invar t \<Longrightarrow> room t \<Longrightarrow> invar (snd (assign t))"
    and assign_out: "invar t \<Longrightarrow> room t \<Longrightarrow> out (snd (assign t)) = insert (fst (assign t)) (out t)"
    and assign_new: "invar t \<Longrightarrow> room t \<Longrightarrow> k \<in> out t \<Longrightarrow> k < fst (assign t)"
    and wait_out: "invar t \<Longrightarrow> k \<in> out t \<Longrightarrow> wait k t = (if k = Min (out t) then Some True else None)"
    and finish_invar: "invar t \<Longrightarrow> k \<in> out t \<Longrightarrow> wait k t = Some True \<Longrightarrow> invar (finish k t)"
    and finish_out: "invar t \<Longrightarrow> k \<in> out t \<Longrightarrow> wait k t = Some True \<Longrightarrow> out (finish k t) = out t - {k}"
    and cancel_invar: "invar t \<Longrightarrow> k \<in> out t \<Longrightarrow> invar (cancel k t)"
    and cancel_out: "invar t \<Longrightarrow> k \<in> out t \<Longrightarrow> out (cancel k t) = out t - {k}"
begin

text \<open>Progress: when tickets are out, exactly one of them is served and every other one waits.\<close>

lemma one_served: "invar t \<Longrightarrow> out t \<noteq> {} \<Longrightarrow> \<exists>!k. k \<in> out t \<and> wait k t = Some True"
proof (rule ex1I [of _ "Min (out t)"])
  assume t: "invar t" "out t \<noteq> {}"
  then have "Min (out t) \<in> out t" by (simp add: finite_out)
  then show "Min (out t) \<in> out t \<and> wait (Min (out t)) t = Some True" using t by (simp add: wait_out)
qed (auto simp: wait_out split: if_splits)

lemma never_skipped: "invar t \<Longrightarrow> k \<in> out t \<Longrightarrow> wait k t \<noteq> Some False"
  by (simp add: wait_out)

text \<open>A new ticket does not overtake: while older tickets are out, it waits.\<close>

lemma assign_waits:
  assumes "invar t" "room t" "out t \<noteq> {}"
  shows "wait (fst (assign t)) (snd (assign t)) = None"
proof -
  let ?t = "snd (assign t)"
  let ?k = "fst (assign t)"
  have inv: "invar ?t" and k: "?k \<in> out ?t" using assms by (simp_all add: assign_invar assign_out)
  obtain j where "j \<in> out t" using assms(3) by blast
  then have "j < ?k" "j \<in> out ?t" using assms by (simp_all add: assign_new assign_out)
  then have "Min (out ?t) \<noteq> ?k" using finite_out [OF inv] by (metis Min_le not_less)
  then show ?thesis using wait_out [OF inv k] by auto
qed

lemma assign_served:
  assumes "invar t" "room t" "out t = {}"
  shows "wait (fst (assign t)) (snd (assign t)) = Some True"
  using wait_out [of "snd (assign t)" "fst (assign t)"] assms by (simp add: assign_invar assign_out)

end

section \<open>The client's fields are a ticket dispenser\<close>

definition tickets_out :: "'a turns_scheme \<Rightarrow> nat set" where
  "tickets_out c = {k. 0 < k \<and> nextTurn c \<le> k \<and> k \<le> nextOrder c} - set (canceledOrders c)"

text \<open>Two more orders must fit: the wrap-around of \<^verbatim>\<open>uint64\<close> is out of reach.\<close>

definition tickets_room :: "'a turns_scheme \<Rightarrow> bool" where
  "tickets_room c \<longleftrightarrow> nextOrder c + 1 < max_uint64"

definition turns_ok :: "'a turns_scheme \<Rightarrow> bool" where
  "turns_ok c \<longleftrightarrow> nextOrder c < max_uint64 \<and> nextTurn c \<le> nextOrder c + 1 \<and>
     (nextTurn c = 0 \<longrightarrow> nextOrder c = 0) \<and>
     (\<forall>k \<in> set (canceledOrders c). nextTurn c < k \<and> k \<le> nextOrder c)"

lemma advanceCanceled_step:
  "t \<in> set cs \<Longrightarrow> advanceCanceled t cs = advanceCanceled (wrap_uint64 (t + 1)) (removeAll t cs)"
  by (subst advanceCanceled.simps) simp

lemma advanceCanceled_stop: "t \<notin> set cs \<Longrightarrow> advanceCanceled t cs = (t, cs)"
  by (subst advanceCanceled.simps) simp

lemma advanceCanceled_spec:
  assumes "\<forall>k \<in> set cs. k < max_uint64" "t \<le> max_uint64" and "advanceCanceled t cs = (t', cs')"
  shows "t \<le> t' \<and> {t..<t'} \<subseteq> set cs \<and> t' \<notin> set cs \<and> set cs' = set cs - {t..<t'}"
  using assms
proof (induction t cs rule: advanceCanceled.induct)
  case (1 t cs)
  show ?case
  proof (cases "t \<in> set cs")
    case True
    let ?cs = "removeAll t cs"
    have t: "t < max_uint64" using True "1.prems"(1) by blast
    then have wrap: "wrap_uint64 (t + 1) = t + 1" by (simp add: wrap_uint64_Suc)
    have rest: "advanceCanceled (wrap_uint64 (t + 1)) ?cs = (t', cs')"
      using "1.prems"(3) unfolding advanceCanceled_step [OF True] .
    have "\<forall>k \<in> set ?cs. k < max_uint64" using "1.prems"(1) by simp
    from "1.IH" [OF True this wrap_uint64_bound rest, unfolded wrap]
    have IH: "t + 1 \<le> t'" "{t + 1..<t'} \<subseteq> set ?cs" "t' \<notin> set ?cs" "set cs' = set ?cs - {t + 1..<t'}"
      by blast+
    have "{t..<t'} = insert t {t + 1..<t'}" using IH(1) by auto
    then show ?thesis using True IH by auto
  next
    case False
    then show ?thesis using "1.prems"(3) by (simp add: advanceCanceled_stop)
  qed
qed

text \<open>Finishing or cancelling the current turn: the turn moves past every cancelled order.\<close>

lemma advance_turn:
  assumes ok: "turns_ok c" and cur: "nextTurn c \<in> tickets_out c"
  defines "c' \<equiv> client_advanceCanceledLocked (c\<lparr>nextTurn := wrap_uint64 (nextTurn c + 1)\<rparr>)"
  shows "turns_ok c' \<and> tickets_out c' = tickets_out c - {nextTurn c}"
proof -
  let ?t = "nextTurn c" and ?cs = "canceledOrders c"
  have pos: "0 < ?t" "?t \<le> nextOrder c" using cur by (auto simp: tickets_out_def)
  have wrap: "wrap_uint64 (?t + 1) = ?t + 1"
    using ok pos by (intro wrap_uint64_id) (auto simp: turns_ok_def)
  obtain t' cs' where adv: "advanceCanceled (?t + 1) ?cs = (t', cs')" by fastforce
  have bound: "\<forall>k \<in> set ?cs. k < max_uint64" "?t + 1 \<le> max_uint64"
    using ok pos by (auto simp: turns_ok_def)
  note spec = advanceCanceled_spec [OF bound adv]
  have t': "t' \<le> nextOrder c + 1"
  proof (rule ccontr)
    assume "\<not> t' \<le> nextOrder c + 1"
    then have "nextOrder c + 1 \<in> set ?cs" using spec pos by auto
    then show False using ok by (auto simp: turns_ok_def)
  qed
  have c': "c' = c\<lparr>nextTurn := t', canceledOrders := cs'\<rparr>"
    by (simp add: c'_def client_advanceCanceledLocked_def wrap [simplified] adv [simplified])
  have above: "t' < k" if "k \<in> set cs'" for k
  proof -
    from that spec have "k \<in> set ?cs" "k \<notin> {?t + 1..<t'}" "k \<noteq> t'" by auto
    moreover have "?t < k" using ok \<open>k \<in> set ?cs\<close> by (auto simp: turns_ok_def)
    ultimately show ?thesis by auto
  qed
  then have "turns_ok c'" using ok t' spec pos by (auto simp: c' turns_ok_def)
  moreover have "k \<in> tickets_out c' \<longleftrightarrow> k \<in> tickets_out c - {?t}" for k
  proof (cases "t' \<le> k")
    case True
    then show ?thesis using spec pos by (simp add: c' tickets_out_def)
  next
    case False
    then have "k \<in> set ?cs \<or> k \<le> ?t" using spec by auto
    then show ?thesis using False by (auto simp: c' tickets_out_def)
  qed
  ultimately show ?thesis by blast
qed

lemma nextTurn_out: "turns_ok c \<Longrightarrow> k \<in> tickets_out c \<Longrightarrow> nextTurn c \<in> tickets_out c"
  by (fastforce simp: turns_ok_def tickets_out_def)

lemma Min_tickets: "turns_ok c \<Longrightarrow> k \<in> tickets_out c \<Longrightarrow> Min (tickets_out c) = nextTurn c"
proof (intro Min_eqI)
  show "finite (tickets_out c)" by (auto simp: tickets_out_def)
qed (auto simp: nextTurn_out, simp add: tickets_out_def)

lemma finite_tickets_out [simp]: "finite (tickets_out c)"
  by (auto simp: tickets_out_def)

lemma assign_spec:
  assumes "turns_ok c" "tickets_room c"
  shows "fst (client_assignOrder c) = nextOrder c + 1"
    and "turns_ok (snd (client_assignOrder c))"
    and "tickets_out (snd (client_assignOrder c)) = insert (nextOrder c + 1) (tickets_out c)"
proof -
  have wrap: "wrap_uint64 (Suc (nextOrder c)) = Suc (nextOrder c)"
    using assms by (intro wrap_uint64_id) (auto simp: tickets_room_def)
  show "fst (client_assignOrder c) = nextOrder c + 1"
    by (simp add: client_assignOrder_def Let_def wrap)
  show "turns_ok (snd (client_assignOrder c))"
    using assms by (auto simp: client_assignOrder_def Let_def wrap turns_ok_def tickets_room_def)
  show "tickets_out (snd (client_assignOrder c)) = insert (nextOrder c + 1) (tickets_out c)"
    using assms by (auto simp: client_assignOrder_def Let_def wrap turns_ok_def tickets_out_def)
qed

lemma wait_spec:
  "turns_ok c \<Longrightarrow> k \<in> tickets_out c \<Longrightarrow>
   client_waitForTurn k c = (if k = Min (tickets_out c) then Some True else None)"
  by (simp add: Min_tickets client_waitForTurn_def) (simp add: tickets_out_def)

lemma cancel_spec:
  assumes "turns_ok c" "k \<in> tickets_out c"
  shows "turns_ok (client_cancelTurn k c)" and "tickets_out (client_cancelTurn k c) = tickets_out c - {k}"
  using advance_turn [OF assms(1) nextTurn_out [OF assms]] assms
  by (auto simp: client_cancelTurn_def turns_ok_def tickets_out_def)

interpretation client_turns: ticket_dispenser client_assignOrder client_waitForTurn
  client_finishTurn client_cancelTurn tickets_out tickets_room turns_ok
proof unfold_locales
  fix t :: "'a turns_scheme" and k :: nat
  assume "turns_ok t" "k \<in> tickets_out t" "client_waitForTurn k t = Some True"
  moreover from this have "k = nextTurn t"
    by (auto simp: client_waitForTurn_def split: if_splits)
  ultimately show "turns_ok (client_finishTurn k t)" "tickets_out (client_finishTurn k t) = tickets_out t - {k}"
    using advance_turn [of t] by (simp_all add: client_finishTurn_def)
next
  fix t :: "'a turns_scheme" and k :: nat
  assume "turns_ok t" "tickets_room t" "k \<in> tickets_out t"
  then show "k < fst (client_assignOrder t)" by (simp add: assign_spec(1)) (simp add: tickets_out_def)
qed (simp_all add: assign_spec wait_spec cancel_spec)

lemma turns_ok_new [simp]: "turns_ok new_turns"
  by (simp add: turns_ok_def new_turns_def max_uint64_def)

lemma tickets_out_new [simp]: "tickets_out new_turns = {}"
  by (auto simp: tickets_out_def new_turns_def)

text \<open>C25. The order fields of a client are a ticket dispenser: of the orders given out and
  neither finished nor cancelled, exactly the oldest has its turn and every other one waits;
  finishing or cancelling an order removes it and no other, also when later orders were cancelled
  before; a new order is younger than all of them.\<close>

theorem turns_serve_oldest:
  assumes "turns_ok c" "k \<in> tickets_out c"
  shows "client_waitForTurn k c = (if k = Min (tickets_out c) then Some True else None) \<and>
    (k = Min (tickets_out c) \<longrightarrow> turns_ok (client_finishTurn k c) \<and> tickets_out (client_finishTurn k c) = tickets_out c - {k}) \<and>
    turns_ok (client_cancelTurn k c) \<and> tickets_out (client_cancelTurn k c) = tickets_out c - {k} \<and>
    (tickets_room c \<longrightarrow> k < fst (client_assignOrder c) \<and> turns_ok (snd (client_assignOrder c)) \<and>
       tickets_out (snd (client_assignOrder c)) = insert (fst (client_assignOrder c)) (tickets_out c))"
  using wait_spec [OF assms] cancel_spec [OF assms] client_turns.finish_invar [OF assms] client_turns.finish_out [OF assms]
    client_turns.assign_invar [OF assms(1)] client_turns.assign_out [OF assms(1)] client_turns.assign_new [OF assms(1) _ assms(2)]
  by (cases "k = Min (tickets_out c)") simp_all

definition demo_turns :: turns where
  "demo_turns = client_cancelTurn 2 (snd (client_assignOrder (snd (client_assignOrder (snd (client_assignOrder new_turns))))))"

lemma demo_turns_eq: "demo_turns = \<lparr>nextOrder = 3, nextTurn = 1, canceledOrders = [2]\<rparr>"
  by (simp add: demo_turns_def new_turns_def client_assignOrder_def client_cancelTurn_def Let_def wrap_uint64_def)

theorem turns_serve_oldest_witness:
  "client_waitForTurn 3 demo_turns = None \<and> tickets_out (client_finishTurn 1 demo_turns) = {3}"
proof -
  have ok: "turns_ok demo_turns" by (simp add: demo_turns_eq turns_ok_def max_uint64_def)
  have out: "tickets_out demo_turns = {1, 3}" by (auto simp: demo_turns_eq tickets_out_def)
  have least: "Min {1, 3 :: nat} = 1" by simp
  show ?thesis
    using turns_serve_oldest [OF ok, of 1] turns_serve_oldest [OF ok, of 3] out least by auto
qed

end
