(* ===== verification/Client.thy ===== *)
theory Client
  imports Sse_Event Turns
begin

text \<open>
  One client generation of \<^verbatim>\<open>bus.go\<close>: the \<^verbatim>\<open>client\<close> and \<^verbatim>\<open>ClientEvent\<close> structs, connection values with
  \<^verbatim>\<open>isNil\<close> and \<^verbatim>\<open>sameConnection\<close>, and the operations \<^verbatim>\<open>retire\<close>, \<^verbatim>\<open>replaceWith\<close>,
  \<^verbatim>\<open>touch\<close>, \<^verbatim>\<open>lastSeen\<close>, \<^verbatim>\<open>isActive\<close>, \<^verbatim>\<open>heartbeat\<close> and \<^verbatim>\<open>Bus.send\<close>.
  Clients are shared through pointers, so they live in a heap indexed by references. Calls into
  code outside the repository (connections, listener, observer, transport, clock) are recorded in a
  log, and their results are given by an environment: arbitrary functions of the log so far.
\<close>

section \<open>Connection values\<close>

text \<open>
  A \<^verbatim>\<open>Connection\<close> is a Go interface value: nil, or a dynamic type and a value. What
  \<^verbatim>\<open>reflect\<close> tells the code about the value: its kind, whether it is comparable, an identity that \<open>==\<close>
  compares, and for pointers, maps and slices the address (0 is nil), length and capacity.
\<close>

datatype go_kind = KPointer | KMap | KSlice | KChan | KFunc | KOther

record conn_value =
  conn_type :: nat
  conn_kind :: go_kind
  conn_comparable :: bool
  conn_data :: nat
  conn_pointer :: nat
  conn_len :: nat
  conn_cap :: nat

type_synonym iface = "conn_value option"
type_synonym connection = iface

fun isNil :: "iface \<Rightarrow> bool" where
  "isNil None = True"
| "isNil (Some v) =
     (case conn_kind v of
        KChan \<Rightarrow> conn_pointer v = 0
      | KFunc \<Rightarrow> conn_pointer v = 0
      | KMap \<Rightarrow> conn_pointer v = 0
      | KPointer \<Rightarrow> conn_pointer v = 0
      | KSlice \<Rightarrow> conn_pointer v = 0
      | KOther \<Rightarrow> False)"

fun sameConnection :: "connection \<Rightarrow> connection \<Rightarrow> bool" where
  "sameConnection None right = (right = None)"
| "sameConnection left None = (left = None)"
| "sameConnection (Some l) (Some r) =
     (if conn_type l \<noteq> conn_type r then False
      else if conn_comparable l \<and> conn_comparable r then conn_data l = conn_data r
      else case conn_kind l of
             KMap \<Rightarrow> conn_pointer l = conn_pointer r
           | KSlice \<Rightarrow> conn_pointer l = conn_pointer r \<and> conn_len l = conn_len r \<and> conn_cap l = conn_cap r
           | _ \<Rightarrow> False)"

section \<open>Clients and client events\<close>

type_synonym cref = nat

record client = turns +
  connection :: connection
  lastTransfer :: instant
  completeAfterMessage :: bool
  inactive :: bool
  connectionClosed :: bool
  replayGeneration :: nat

record client_event =
  ce_ClientID :: string
  ce_Event :: event
  ce_Message :: message
  ce_client :: cref
  ce_attempts :: int
  ce_retryAfter :: instant
  ce_retryOrder :: nat
  ce_generation :: nat
  ce_sendOrder :: nat

definition ClientEvent_Attempts :: "client_event \<Rightarrow> int" where
  "ClientEvent_Attempts e = ce_attempts e"

text \<open>The copy a listener sees: no client, no scheduling fields.\<close>

record snapshot =
  snap_ClientID :: string
  snap_Event :: event
  snap_Message :: message
  snap_attempts :: int

definition listenerSnapshot :: "client_event \<Rightarrow> snapshot" where
  "listenerSnapshot e =
     \<lparr>snap_ClientID = ce_ClientID e, snap_Event = normalizeEvent (ce_Event e),
      snap_Message = ce_Message e, snap_attempts = ce_attempts e\<rparr>"

section \<open>Observations, effects and the environment\<close>

datatype operation =
    OperationRegisterClient | OperationUnregisterClient | OperationHandleEvent | OperationSendEvent
  | OperationReplayEvents | OperationPublishRemote | OperationReceiveRemote

record observation =
  obs_Operation :: operation
  obs_Outcome :: string
  obs_ClientID :: string
  obs_EventName :: string
  obs_Direct :: bool
  obs_Replay :: bool
  obs_CompleteAfterMessage :: bool
  obs_LastEventIDPresent :: bool
  obs_DeliveryCount :: int
  obs_Attempt :: int
  obs_Err :: "err option"

definition zero_observation :: "operation \<Rightarrow> string \<Rightarrow> observation" where
  "zero_observation oper outcome =
     \<lparr>obs_Operation = oper, obs_Outcome = outcome, obs_ClientID = [], obs_EventName = [],
      obs_Direct = False, obs_Replay = False, obs_CompleteAfterMessage = False,
      obs_LastEventIDPresent = False, obs_DeliveryCount = 0, obs_Attempt = 0, obs_Err = None\<rparr>"

text \<open>One entry per call into external code, with its result where the code looks at it.\<close>

datatype effect =
    SendCall cref connection message "err option"
  | HeartbeatCall cref connection message "err option"
  | CloseCall cref connection "err option"
  | ObserveCall observation
  | QueuedCall snapshot bool
  | SentCall snapshot "err option"
  | UnregisteredCall "string list"
  | PublishRemoteCall event "err option"
  | PanicHandlerCall

type_synonym history = "effect list"

record env =
  env_send :: "history \<Rightarrow> connection \<Rightarrow> message \<Rightarrow> err option"
  env_close :: "history \<Rightarrow> connection \<Rightarrow> err option"
  env_now :: "history \<Rightarrow> instant"
  env_panics :: "history \<Rightarrow> bool"
  env_remote :: "history \<Rightarrow> event \<Rightarrow> err option"
  env_marshal :: "data \<Rightarrow> err + string"
  env_range :: "history \<Rightarrow> range_order"

text \<open>A context reports its error as a function of the history; \<^verbatim>\<open>context.Background\<close> never
  has one. A nil context is replaced by the background context.\<close>

type_synonym go_context = "history \<Rightarrow> err option"

definition Background :: go_context where
  "Background = (\<lambda>_. None)"

definition orBackground :: "go_context option \<Rightarrow> go_context" where
  "orBackground ctx = (case ctx of None \<Rightarrow> Background | Some c \<Rightarrow> c)"

record world =
  heap :: "cref \<Rightarrow> client"
  nextRef :: cref
  log :: history

definition emit :: "effect \<Rightarrow> 'a world_scheme \<Rightarrow> 'a world_scheme" where
  "emit x w = w\<lparr>log := log w @ [x]\<rparr>"

definition upd_client :: "cref \<Rightarrow> (client \<Rightarrow> client) \<Rightarrow> 'a world_scheme \<Rightarrow> 'a world_scheme" where
  "upd_client c f w = w\<lparr>heap := (heap w)(c := f (heap w c))\<rparr>"

definition call_close :: "env \<Rightarrow> cref \<Rightarrow> connection \<Rightarrow> 'a world_scheme \<Rightarrow> err option \<times> 'a world_scheme" where
  "call_close env c conn w =
     (let r = env_close env (log w) conn in (r, emit (CloseCall c conn r) w))"

section \<open>Operations of a client\<close>

definition client_isActive :: "cref \<Rightarrow> 'a world_scheme \<Rightarrow> bool" where
  "client_isActive c w \<longleftrightarrow> \<not> inactive (heap w c)"

definition client_lastSeen :: "cref \<Rightarrow> 'a world_scheme \<Rightarrow> instant" where
  "client_lastSeen c w = lastTransfer (heap w c)"

definition client_touch :: "env \<Rightarrow> cref \<Rightarrow> 'a world_scheme \<Rightarrow> 'a world_scheme" where
  "client_touch env c w = upd_client c (\<lambda>cl. cl\<lparr>lastTransfer := env_now env (log w)\<rparr>) w"

text \<open>\<^verbatim>\<open>retire\<close> and \<^verbatim>\<open>replaceWith\<close> mark the connection closed under the client's mutex and call its \<^verbatim>\<open>Close\<close>
  after they released it; the mark and the call it owes are one step here.\<close>

definition client_retire :: "env \<Rightarrow> cref \<Rightarrow> bool \<Rightarrow> 'a world_scheme \<Rightarrow> err option \<times> 'a world_scheme" where
  "client_retire env c closeConnection w =
     (let w1 = upd_client c (\<lambda>cl. cl\<lparr>inactive := True\<rparr>) w
      in if closeConnection \<and> \<not> connectionClosed (heap w1 c)
         then let w2 = upd_client c (\<lambda>cl. cl\<lparr>connectionClosed := True\<rparr>) w1;
                  conn = connection (heap w1 c)
              in if conn \<noteq> None then call_close env c conn w2 else (None, w2)
         else (None, w1))"

definition client_replaceWith :: "env \<Rightarrow> cref \<Rightarrow> connection \<Rightarrow> 'a world_scheme \<Rightarrow> err option \<times> 'a world_scheme" where
  "client_replaceWith env c conn w =
     (let w1 = upd_client c (\<lambda>cl. cl\<lparr>inactive := True\<rparr>) w
      in if \<not> sameConnection (connection (heap w1 c)) conn \<and> \<not> connectionClosed (heap w1 c)
         then let w2 = upd_client c (\<lambda>cl. cl\<lparr>connectionClosed := True\<rparr>) w1;
                  old = connection (heap w1 c)
              in if old \<noteq> None then call_close env c old w2 else (None, w2)
         else (None, w1))"

definition client_heartbeat :: "env \<Rightarrow> message \<Rightarrow> cref \<Rightarrow> 'a world_scheme \<Rightarrow> bool \<times> 'a world_scheme" where
  "client_heartbeat env msg c w =
     (if inactive (heap w c) then (False, w)
      else let conn = connection (heap w c);
               r = env_send env (log w) conn msg;
               w1 = emit (HeartbeatCall c conn msg r) w
           in if r \<noteq> None then (False, w1)
              else (True, upd_client c (\<lambda>cl. cl\<lparr>lastTransfer := env_now env (log w1)\<rparr>) w1))"

text \<open>\<^verbatim>\<open>Bus.send\<close>: the result is whether a send was attempted, its error, and the event
  with its attempt counted.\<close>

definition Bus_send ::
  "env \<Rightarrow> client_event \<Rightarrow> 'a world_scheme \<Rightarrow> (bool \<times> err option \<times> client_event) \<times> 'a world_scheme" where
  "Bus_send env e w =
     (let c = ce_client e in
      if inactive (heap w c) then ((False, Some errInactiveClient, e), w)
      else let conn = connection (heap w c);
               complete = completeAfterMessage (heap w c);
               e1 = e\<lparr>ce_attempts := wrap_int32 (ce_attempts e + 1)\<rparr>;
               r = env_send env (log w) conn (ce_Message e);
               w1 = emit (SendCall c conn (ce_Message e) r) w;
               w2 = (if r = None then upd_client c (\<lambda>cl. cl\<lparr>lastTransfer := env_now env (log w1)\<rparr>) w1 else w1)
           in if (r = None \<and> complete) \<or> err_is r ErrClosed
              then let w3 = upd_client c (\<lambda>cl. cl\<lparr>inactive := True\<rparr>) w2
                   in if \<not> connectionClosed (heap w3 c)
                      then let w4 = upd_client c (\<lambda>cl. cl\<lparr>connectionClosed := True\<rparr>) w3
                           in if conn \<noteq> None then ((True, r, e1), snd (call_close env c conn w4))
                              else ((True, r, e1), w4)
                      else ((True, r, e1), w3)
              else ((True, r, e1), w2))"

section \<open>sameConnection\<close>

lemma sameConnection_sym:
  assumes "\<And>l r. left = Some l \<Longrightarrow> right = Some r \<Longrightarrow> conn_type l = conn_type r \<Longrightarrow> conn_kind l = conn_kind r"
  shows "sameConnection left right = sameConnection right left"
proof (cases left)
  case None
  then show ?thesis by (cases right) simp_all
next
  case (Some l)
  then show ?thesis
  proof (cases right)
    case (Some r)
    note kinds = assms [OF \<open>left = Some l\<close> Some]
    show ?thesis
    proof (cases "conn_type l = conn_type r")
      case True
      with kinds have "conn_kind r = conn_kind l" by simp
      with True \<open>left = Some l\<close> Some show ?thesis by (cases "conn_kind l") auto
    qed (use \<open>left = Some l\<close> Some in auto)
  qed simp
qed

lemma sameConnection_refl_iff:
  "sameConnection conn conn \<longleftrightarrow>
     (case conn of None \<Rightarrow> True | Some v \<Rightarrow> conn_comparable v \<or> conn_kind v = KMap \<or> conn_kind v = KSlice)"
proof (cases conn)
  case (Some v)
  then show ?thesis by (cases "conn_kind v") simp_all
qed simp

section \<open>The heap and the log\<close>

lemma upd_client_simps [simp]:
  "heap (upd_client c f w) = (heap w)(c := f (heap w c))"
  "log (upd_client c f w) = log w" "nextRef (upd_client c f w) = nextRef w"
  by (simp_all add: upd_client_def)

lemma emit_simps [simp]:
  "heap (emit x w) = heap w" "log (emit x w) = log w @ [x]" "nextRef (emit x w) = nextRef w"
  by (simp_all add: emit_def)

lemma call_close_simps [simp]:
  "heap (snd (call_close env c conn w)) = heap w"
  "log (snd (call_close env c conn w)) = log w @ [CloseCall c conn (env_close env (log w) conn)]"
  "nextRef (snd (call_close env c conn w)) = nextRef w"
  "fst (call_close env c conn w) = env_close env (log w) conn"
  by (simp_all add: call_close_def Let_def)

fun closes_of :: "cref \<Rightarrow> effect \<Rightarrow> bool" where
  "closes_of c (CloseCall c' conn r) = (c' = c)"
| "closes_of c _ = False"

fun sends_of :: "cref \<Rightarrow> effect \<Rightarrow> bool" where
  "sends_of c (SendCall c' conn m r) = (c' = c)"
| "sends_of c _ = False"

fun delivers_of :: "cref \<Rightarrow> effect \<Rightarrow> bool" where
  "delivers_of c (SendCall c' conn m r) = (c' = c \<and> r = None)"
| "delivers_of c _ = False"

fun ref_of :: "effect \<Rightarrow> cref option" where
  "ref_of (SendCall c conn m r) = Some c"
| "ref_of (HeartbeatCall c conn m r) = Some c"
| "ref_of (CloseCall c conn r) = Some c"
| "ref_of _ = None"

definition close_count :: "cref \<Rightarrow> history \<Rightarrow> nat" where
  "close_count c h = length (filter (closes_of c) h)"

definition delivery_count :: "cref \<Rightarrow> history \<Rightarrow> nat" where
  "delivery_count c h = length (filter (delivers_of c) h)"

lemma count_simps [simp]:
  "close_count c [] = 0" "delivery_count c [] = 0"
  "close_count c (h @ [x]) = close_count c h + (if closes_of c x then 1 else 0)"
  "delivery_count c (h @ [x]) = delivery_count c h + (if delivers_of c x then 1 else 0)"
  by (simp_all add: close_count_def delivery_count_def)

section \<open>The lifecycle invariant of a generation\<close>

text \<open>
  A connection is closed exactly once, when \<^verbatim>\<open>connectionClosed\<close> is set; only inactive clients
  are closed; and a complete-after-message client has delivered at most one event, none while it is
  still active.
\<close>

definition client_inv :: "history \<Rightarrow> cref \<Rightarrow> client \<Rightarrow> bool" where
  "client_inv h c cl \<longleftrightarrow>
     connection cl \<noteq> None \<and>
     close_count c h = (if connectionClosed cl then 1 else 0) \<and>
     (connectionClosed cl \<longrightarrow> inactive cl) \<and>
     (completeAfterMessage cl \<longrightarrow> delivery_count c h \<le> (if inactive cl then 1 else 0))"

definition world_inv :: "'a world_scheme \<Rightarrow> bool" where
  "world_inv w \<longleftrightarrow>
     (\<forall>c < nextRef w. client_inv (log w) c (heap w c)) \<and>
     (\<forall>x \<in> set (log w). \<forall>c. ref_of x = Some c \<longrightarrow> c < nextRef w)"

text \<open>A step of one client \<open>c\<close> keeps the invariant of every other client.\<close>

definition other_effect :: "cref \<Rightarrow> effect \<Rightarrow> bool" where
  "other_effect c x \<longleftrightarrow> (\<forall>c'. ref_of x = Some c' \<longrightarrow> c' = c)"

lemma count_other:
  assumes "\<forall>x \<in> set xs. other_effect c x" "c' \<noteq> c"
  shows "close_count c' (h @ xs) = close_count c' h" "delivery_count c' (h @ xs) = delivery_count c' h"
proof -
  have "\<not> closes_of c' x \<and> \<not> delivers_of c' x" if "x \<in> set xs" for x
    using assms that by (cases x) (auto simp: other_effect_def)
  then show "close_count c' (h @ xs) = close_count c' h" "delivery_count c' (h @ xs) = delivery_count c' h"
    by (simp_all add: close_count_def delivery_count_def)
qed

lemma world_inv_step:
  assumes inv: "world_inv w" and c: "c < nextRef w"
    and heap: "heap w' = (heap w)(c := cl)" and next_ref: "nextRef w' = nextRef w"
    and log: "log w' = log w @ xs" and xs: "\<forall>x \<in> set xs. other_effect c x"
    and cl: "client_inv (log w @ xs) c cl"
  shows "world_inv w'"
proof -
  have "client_inv (log w') c' (heap w' c')" if "c' < nextRef w" for c'
    using that inv cl count_other [OF xs, of c' "log w"]
    by (cases "c' = c") (auto simp: heap log world_inv_def client_inv_def)
  moreover have "c' < nextRef w" if "x \<in> set xs" "ref_of x = Some c'" for x c'
    using that xs c by (auto simp: other_effect_def)
  ultimately show ?thesis using inv by (auto simp: world_inv_def next_ref log)
qed

lemma world_invD: "world_inv w \<Longrightarrow> c < nextRef w \<Longrightarrow> client_inv (log w) c (heap w c)"
  by (simp add: world_inv_def)

lemma world_inv_emit [intro]: "world_inv w \<Longrightarrow> ref_of x = None \<Longrightarrow> world_inv (emit x w)"
  by (cases x) (auto simp: world_inv_def client_inv_def)

text \<open>Allocating a client generation.\<close>

lemma world_inv_alloc:
  assumes "world_inv w" "connection cl \<noteq> None" "\<not> inactive cl" "\<not> connectionClosed cl"
  shows "world_inv (w\<lparr>heap := (heap w)(nextRef w := cl), nextRef := Suc (nextRef w)\<rparr>)"
proof -
  have "\<not> closes_of (nextRef w) x \<and> \<not> delivers_of (nextRef w) x" if "x \<in> set (log w)" for x
    using assms(1) that by (cases x) (auto simp: world_inv_def)
  then have "client_inv (log w) (nextRef w) cl"
    using assms by (simp add: client_inv_def close_count_def delivery_count_def)
  then show ?thesis using assms(1) by (fastforce simp: world_inv_def less_Suc_eq)
qed

section \<open>The operations as updates of the heap and the log\<close>

definition close_effects :: "env \<Rightarrow> cref \<Rightarrow> connection \<Rightarrow> history \<Rightarrow> effect list" where
  "close_effects env c conn h = (if conn \<noteq> None then [CloseCall c conn (env_close env h conn)] else [])"

lemma world_update_eq:
  fixes w :: "'a world_scheme"
  shows "heap w' = H \<Longrightarrow> log w' = L \<Longrightarrow> nextRef w' = nextRef w \<Longrightarrow> world.more w' = world.more w \<Longrightarrow>
    w' = w\<lparr>heap := H, log := L\<rparr>"
  by simp

lemma more_simps [simp]:
  "world.more (upd_client c f w) = world.more w" "world.more (emit x w) = world.more w"
  "world.more (snd (call_close env c conn w)) = world.more w"
  by (simp_all add: upd_client_def emit_def call_close_def Let_def)

lemma client_retire_eq:
  "snd (client_retire env c b w) =
     w\<lparr>heap := (heap w)(c := (heap w c)\<lparr>inactive := True, connectionClosed := connectionClosed (heap w c) \<or> b\<rparr>),
       log := log w @ (if b \<and> \<not> connectionClosed (heap w c)
                       then close_effects env c (connection (heap w c)) (log w) else [])\<rparr>"
  by (rule world_update_eq) (auto simp: client_retire_def close_effects_def Let_def)

lemma client_replaceWith_eq:
  "snd (client_replaceWith env c conn w) =
     (let fresh = \<not> sameConnection (connection (heap w c)) conn in
      w\<lparr>heap := (heap w)(c := (heap w c)\<lparr>inactive := True, connectionClosed := connectionClosed (heap w c) \<or> fresh\<rparr>),
        log := log w @ (if fresh \<and> \<not> connectionClosed (heap w c)
                        then close_effects env c (connection (heap w c)) (log w) else [])\<rparr>)"
  unfolding Let_def
  by (rule world_update_eq) (auto simp: client_replaceWith_def close_effects_def Let_def)

text \<open>What a send decides: the connection's answer, and whether it ends the generation.\<close>

definition send_result :: "env \<Rightarrow> client_event \<Rightarrow> 'a world_scheme \<Rightarrow> err option" where
  "send_result env e w = env_send env (log w) (connection (heap w (ce_client e))) (ce_Message e)"

definition send_ends :: "env \<Rightarrow> client_event \<Rightarrow> 'a world_scheme \<Rightarrow> bool" where
  "send_ends env e w \<longleftrightarrow>
     (send_result env e w = None \<and> completeAfterMessage (heap w (ce_client e))) \<or> err_is (send_result env e w) ErrClosed"

lemma Bus_send_inactive:
  "inactive (heap w (ce_client e)) \<Longrightarrow> Bus_send env e w = ((False, Some errInactiveClient, e), w)"
  by (simp add: Bus_send_def)

lemma Bus_send_result:
  "\<not> inactive (heap w (ce_client e)) \<Longrightarrow>
   fst (Bus_send env e w) = (True, send_result env e w, e\<lparr>ce_attempts := wrap_int32 (ce_attempts e + 1)\<rparr>)"
  by (simp add: Bus_send_def send_result_def Let_def)

lemma Bus_send_eq:
  fixes w :: "'a world_scheme" and env :: env
  assumes "\<not> inactive (heap w (ce_client e))"
  defines "c \<equiv> ce_client e" and "r \<equiv> send_result env e w" and "ends \<equiv> send_ends env e w"
  defines "cl \<equiv> heap w c"
  defines "h1 \<equiv> log w @ [SendCall c (connection cl) (ce_Message e) r]"
  shows "snd (Bus_send env e w) =
     w\<lparr>heap := (heap w)(c := cl\<lparr>lastTransfer := (if r = None then env_now env h1 else lastTransfer cl),
                              inactive := ends, connectionClosed := connectionClosed cl \<or> ends\<rparr>),
       log := h1 @ (if ends \<and> \<not> connectionClosed cl then close_effects env c (connection cl) h1 else [])\<rparr>"
  using assms(1)
  by (intro world_update_eq)
    (auto simp: Bus_send_def send_result_def send_ends_def close_effects_def Let_def r_def ends_def c_def cl_def h1_def)

lemma client_heartbeat_eq:
  fixes w :: "'a world_scheme" and env :: env and msg :: message
  assumes "\<not> inactive (heap w c)"
  defines "cl \<equiv> heap w c" and "r \<equiv> env_send env (log w) (connection (heap w c)) msg"
  defines "h1 \<equiv> log w @ [HeartbeatCall c (connection cl) msg r]"
  shows "client_heartbeat env msg c w =
     (r = None, w\<lparr>heap := (heap w)(c := cl\<lparr>lastTransfer := (if r = None then env_now env h1 else lastTransfer cl)\<rparr>), log := h1\<rparr>)"
  using assms(1)
  by (auto simp: client_heartbeat_def Let_def r_def cl_def h1_def upd_client_def emit_def)

lemma client_heartbeat_inactive: "inactive (heap w c) \<Longrightarrow> client_heartbeat env msg c w = (False, w)"
  by (simp add: client_heartbeat_def)

section \<open>Every operation keeps the lifecycle invariant\<close>

lemma close_effects_other: "x \<in> set (close_effects env c conn h) \<Longrightarrow> other_effect c x"
  by (auto simp: close_effects_def other_effect_def split: if_splits)

lemma count_close_effects [simp]:
  "conn \<noteq> None \<Longrightarrow> close_count c (h @ close_effects env c conn h') = Suc (close_count c h)"
  "delivery_count c (h @ close_effects env c conn h') = delivery_count c h"
  by (simp_all add: close_effects_def)

lemma client_retire_inv:
  assumes "world_inv w" "c < nextRef w"
  shows "world_inv (snd (client_retire env c b w))"
proof (rule world_inv_step [OF assms])
  show "client_inv (log w @ (if b \<and> \<not> connectionClosed (heap w c)
      then close_effects env c (connection (heap w c)) (log w) else [])) c
      ((heap w c)\<lparr>inactive := True, connectionClosed := connectionClosed (heap w c) \<or> b\<rparr>)"
    using world_invD [OF assms] by (auto simp: client_inv_def split: if_splits)
qed (auto simp: client_retire_eq close_effects_other)

lemma client_replaceWith_inv:
  assumes "world_inv w" "c < nextRef w"
  shows "world_inv (snd (client_replaceWith env c conn w))"
proof (rule world_inv_step [OF assms])
  let ?f = "\<not> sameConnection (connection (heap w c)) conn"
  show "client_inv (log w @ (if ?f \<and> \<not> connectionClosed (heap w c)
      then close_effects env c (connection (heap w c)) (log w) else [])) c
      ((heap w c)\<lparr>inactive := True, connectionClosed := connectionClosed (heap w c) \<or> ?f\<rparr>)"
    using world_invD [OF assms] by (auto simp: client_inv_def split: if_splits)
qed (auto simp: client_replaceWith_eq Let_def close_effects_other)

lemma client_heartbeat_inv:
  assumes "world_inv w" "c < nextRef w"
  shows "world_inv (snd (client_heartbeat env msg c w))"
proof (cases "inactive (heap w c)")
  case False
  let ?r = "env_send env (log w) (connection (heap w c)) msg"
  let ?x = "HeartbeatCall c (connection (heap w c)) msg ?r"
  show ?thesis
  proof (rule world_inv_step [OF assms])
    show "client_inv (log w @ [?x]) c
        ((heap w c)\<lparr>lastTransfer := (if ?r = None then env_now env (log w @ [?x]) else lastTransfer (heap w c))\<rparr>)"
      using world_invD [OF assms] by (auto simp: client_inv_def)
  qed (auto simp: client_heartbeat_eq [OF False] other_effect_def)
qed (simp add: client_heartbeat_inactive assms)

lemma Bus_send_inv:
  assumes "world_inv w" "ce_client e < nextRef w"
  shows "world_inv (snd (Bus_send env e w))"
proof (cases "inactive (heap w (ce_client e))")
  case False
  define c where "c = ce_client e"
  define r where "r = send_result env e w"
  define ends where "ends = send_ends env e w"
  define x where "x = SendCall c (connection (heap w c)) (ce_Message e) r"
  let ?close = "if ends \<and> \<not> connectionClosed (heap w c)
      then close_effects env c (connection (heap w c)) (log w @ [x]) else []"
  note inv = world_invD [OF assms, folded c_def]
  show ?thesis
  proof (rule world_inv_step [OF assms(1) assms(2) [folded c_def]])
    have "completeAfterMessage (heap w c) \<Longrightarrow> r = None \<Longrightarrow> ends"
      by (simp add: ends_def send_ends_def r_def c_def)
    then show "client_inv (log w @ x # ?close) c
        ((heap w c)\<lparr>lastTransfer := (if r = None then env_now env (log w @ [x]) else lastTransfer (heap w c)),
           inactive := ends, connectionClosed := connectionClosed (heap w c) \<or> ends\<rparr>)"
      using inv False count_close_effects(1) [where conn = "connection (heap w c)" and h = "log w @ [x]"]
        count_close_effects(2) [where h = "log w @ [x]"]
      by (auto simp: client_inv_def c_def [symmetric] x_def split: if_splits)
  qed (auto simp: Bus_send_eq [OF False] close_effects_def other_effect_def c_def r_def ends_def x_def
      split: if_splits)
qed (simp add: Bus_send_inactive assms)

end
