(* ===== verification/Send_Queue.thy ===== *)
theory Send_Queue
  imports Client
begin

text \<open>
  The bounded send queue \<^verbatim>\<open>eventQueue\<close> of \<^verbatim>\<open>queue.go\<close>. Popped slots at the front of the
  slice are nil until \<^verbatim>\<open>compactLocked\<close> reclaims them, so the slice holds optional events and
  the queue proper starts at \<^verbatim>\<open>head\<close>. The buffered channels \<^verbatim>\<open>itemReady\<close> and
  \<^verbatim>\<open>spaceReady\<close> have one slot each: a flag. A call of \<^verbatim>\<open>push\<close> or \<^verbatim>\<open>pop\<close> is modelled
  by one round of its loop, with a separate result for "block in the select". The locale \<open>bounded_fifo\<close>
  is the contract: a list that grows at the back and shrinks at the front, or by filtering.
\<close>

section \<open>The operations\<close>

record event_queue =
  eq_items :: "client_event option list"
  eq_head :: nat
  eq_capacity :: int
  eq_itemReady :: bool
  eq_spaceReady :: bool
  eq_closed :: bool

definition newEventQueue :: "int \<Rightarrow> event_queue" where
  "newEventQueue capacity =
     \<lparr>eq_items = [], eq_head = 0, eq_capacity = capacity, eq_itemReady = False, eq_spaceReady = False,
      eq_closed = False\<rparr>"

definition eventQueue_sizeLocked :: "event_queue \<Rightarrow> int" where
  "eventQueue_sizeLocked q = int (length (eq_items q)) - int (eq_head q)"

definition eventQueue_len :: "event_queue \<Rightarrow> int" where
  "eventQueue_len q = eventQueue_sizeLocked q"

text \<open>A send on a one-slot channel with a \<^verbatim>\<open>default\<close> branch: the slot is full afterwards.\<close>

definition signal_itemReady :: "event_queue \<Rightarrow> event_queue" where
  "signal_itemReady q = q\<lparr>eq_itemReady := True\<rparr>"

definition signal_spaceReady :: "event_queue \<Rightarrow> event_queue" where
  "signal_spaceReady q = q\<lparr>eq_spaceReady := True\<rparr>"

definition eventQueue_compactLocked :: "event_queue \<Rightarrow> event_queue" where
  "eventQueue_compactLocked q =
     (if eq_head q = length (eq_items q) then q\<lparr>eq_items := [], eq_head := 0\<rparr>
      else if eq_head q \<ge> 1024 \<and> eq_head q * 2 \<ge> length (eq_items q)
      then q\<lparr>eq_items := drop (eq_head q) (eq_items q), eq_head := 0\<rparr>
      else q)"

text \<open>The critical section of \<^verbatim>\<open>push\<close> once there is room: append, wake a popper, and pass
  the space notification on while there is more room.\<close>

definition eventQueue_append :: "client_event \<Rightarrow> event_queue \<Rightarrow> event_queue" where
  "eventQueue_append e q =
     (let q1 = signal_itemReady (q\<lparr>eq_items := eq_items q @ [Some e]\<rparr>)
      in if eventQueue_sizeLocked q1 < eq_capacity q1 then signal_spaceReady q1 else q1)"

datatype push_result = PushErr err | Pushed client_event | PushWait

definition eventQueue_push ::
  "go_context \<Rightarrow> client_event \<Rightarrow> event_queue \<Rightarrow> 'a world_scheme \<Rightarrow> push_result \<times> event_queue \<times> 'a world_scheme" where
  "eventQueue_push ctx e q w =
     (case ctx (log w) of
        Some x \<Rightarrow> (PushErr x, q, w)
      | None \<Rightarrow>
          if eq_closed q then (PushErr ErrClosed, q, w)
          else if eventQueue_sizeLocked q < eq_capacity q
          then let (order, cl) = client_assignOrder (heap w (ce_client e));
                   e1 = e\<lparr>ce_sendOrder := order\<rparr>
               in (Pushed e1, eventQueue_append e1 q, upd_client (ce_client e) (\<lambda>_. cl) w)
          else (PushWait, q, w))"

datatype pop_result = PopClosed | Popped "client_event option" | PopWait

definition eventQueue_take :: "event_queue \<Rightarrow> event_queue" where
  "eventQueue_take q =
     (let q1 = q\<lparr>eq_items := (eq_items q)[eq_head q := None], eq_head := eq_head q + 1\<rparr>;
          q2 = signal_spaceReady (eventQueue_compactLocked q1)
      in if eventQueue_sizeLocked q2 > 0 then signal_itemReady q2 else q2)"

definition eventQueue_pop :: "event_queue \<Rightarrow> pop_result \<times> event_queue" where
  "eventQueue_pop q =
     (if eq_closed q then (PopClosed, q)
      else if eventQueue_sizeLocked q > 0 then (Popped (eq_items q ! eq_head q), eventQueue_take q)
      else (PopWait, q))"

definition eventQueue_close :: "event_queue \<Rightarrow> event_queue" where
  "eventQueue_close q = (if \<not> eq_closed q then q\<lparr>eq_closed := True\<rparr> else q)"

definition eventQueue_drain :: "event_queue \<Rightarrow> client_event option list \<times> event_queue" where
  "eventQueue_drain q =
     (drop (eq_head q) (eq_items q), signal_spaceReady (q\<lparr>eq_items := [], eq_head := 0\<rparr>))"

definition slot_matches :: "(client_event \<Rightarrow> bool) \<Rightarrow> client_event option \<Rightarrow> bool" where
  "slot_matches match s = (case s of None \<Rightarrow> False | Some e \<Rightarrow> match e)"

definition eventQueue_filter :: "(client_event \<Rightarrow> bool) \<Rightarrow> event_queue \<Rightarrow> event_queue" where
  "eventQueue_filter match q =
     signal_spaceReady
       (q\<lparr>eq_items := kept_prefix (\<lambda>s. \<not> slot_matches match s) (eq_items q) (eq_head q), eq_head := 0\<rparr>)"

text \<open>\<^verbatim>\<open>event.client.cancelTurn(event.sendOrder)\<close> on an event the loop drops.\<close>

definition cancel_slot :: "(client_event \<Rightarrow> bool) \<Rightarrow> client_event option \<Rightarrow> 'a world_scheme \<Rightarrow> 'a world_scheme" where
  "cancel_slot match s w =
     (case s of
        None \<Rightarrow> w
      | Some e \<Rightarrow> if match e then upd_client (ce_client e) (client_cancelTurn (ce_sendOrder e)) w else w)"

definition eventQueue_remove ::
  "(client_event \<Rightarrow> bool) \<Rightarrow> event_queue \<Rightarrow> 'a world_scheme \<Rightarrow> event_queue \<times> 'a world_scheme" where
  "eventQueue_remove match q w =
     (eventQueue_filter match q, fold (cancel_slot match) (drop (eq_head q) (eq_items q)) w)"

section \<open>The contract of a bounded FIFO queue\<close>

locale bounded_fifo =
  fixes append :: "'e \<Rightarrow> 'q \<Rightarrow> 'q"
    and front :: "'q \<Rightarrow> 'e option"
    and take :: "'q \<Rightarrow> 'q"
    and remove :: "('e \<Rightarrow> bool) \<Rightarrow> 'q \<Rightarrow> 'q"
    and has_room :: "'q \<Rightarrow> bool"
    and contents :: "'q \<Rightarrow> 'e list"
    and bound :: "'q \<Rightarrow> int"
    and invar :: "'q \<Rightarrow> bool"
  assumes append_invar: "invar q \<Longrightarrow> has_room q \<Longrightarrow> invar (append e q)"
    and append_contents: "invar q \<Longrightarrow> has_room q \<Longrightarrow> contents (append e q) = contents q @ [e]"
    and append_bound: "invar q \<Longrightarrow> bound (append e q) = bound q"
    and front_contents: "invar q \<Longrightarrow> contents q = e # es \<Longrightarrow> front q = Some e"
    and take_invar: "invar q \<Longrightarrow> contents q \<noteq> [] \<Longrightarrow> invar (take q)"
    and take_contents: "invar q \<Longrightarrow> contents q \<noteq> [] \<Longrightarrow> contents (take q) = tl (contents q)"
    and take_bound: "invar q \<Longrightarrow> bound (take q) = bound q"
    and remove_invar: "invar q \<Longrightarrow> invar (remove P q)"
    and remove_contents: "invar q \<Longrightarrow> contents (remove P q) = filter (\<lambda>e. \<not> P e) (contents q)"
    and has_room_iff: "invar q \<Longrightarrow> has_room q \<longleftrightarrow> int (length (contents q)) < bound q"
    and within_bound: "invar q \<Longrightarrow> int (length (contents q)) \<le> bound q"
begin

text \<open>Popping repeatedly: the events come out in the order of the contents.\<close>

fun pops :: "nat \<Rightarrow> 'q \<Rightarrow> 'e option list \<times> 'q" where
  "pops 0 q = ([], q)"
| "pops (Suc n) q = (case pops n (take q) of (xs, q') \<Rightarrow> (front q # xs, q'))"

lemma pops_contents:
  "invar q \<Longrightarrow> n \<le> length (contents q) \<Longrightarrow>
   fst (pops n q) = map Some (List.take n (contents q)) \<and>
   invar (snd (pops n q)) \<and> contents (snd (pops n q)) = drop n (contents q)"
proof (induction n arbitrary: q)
  case (Suc n)
  then obtain e es where q: "contents q = e # es" by (cases "contents q") auto
  then have "invar (take q)" "contents (take q) = es"
    using Suc.prems by (simp_all add: take_invar take_contents)
  with Suc.IH [of "take q"] Suc.prems q show ?case
    by (simp add: case_prod_unfold front_contents [OF Suc.prems(1) q])
qed simp

text \<open>Appending a batch that fits, then popping as many: first in, first out.\<close>

lemma fold_append:
  "invar q \<Longrightarrow> int (length (contents q) + length es) \<le> bound q \<Longrightarrow>
   invar (fold append es q) \<and> contents (fold append es q) = contents q @ es"
proof (induction es arbitrary: q)
  case (Cons e es)
  then have "has_room q" by (simp add: has_room_iff)
  then show ?case using Cons.IH [of "append e q"] Cons.prems
    by (simp add: append_invar append_contents append_bound)
qed simp

lemma append_pops:
  assumes "invar q" "contents q = []" "int (length es) \<le> bound q"
  shows "fst (pops (length es) (fold append es q)) = map Some es"
  using fold_append [of q es] pops_contents [of "fold append es q" "length es"] assms by simp

end

section \<open>The queue is a bounded FIFO queue\<close>

definition queued :: "event_queue \<Rightarrow> client_event list" where
  "queued q = map the (drop (eq_head q) (eq_items q))"

text \<open>Slots before \<^verbatim>\<open>head\<close> hold no event any more (their events can be collected), slots from
  \<^verbatim>\<open>head\<close> on hold one, and the capacity is respected.\<close>

definition queue_ok :: "event_queue \<Rightarrow> bool" where
  "queue_ok q \<longleftrightarrow> eq_head q \<le> length (eq_items q) \<and>
     (\<forall>s \<in> set (take (eq_head q) (eq_items q)). s = None) \<and>
     (\<forall>s \<in> set (drop (eq_head q) (eq_items q)). s \<noteq> None) \<and>
     int (length (drop (eq_head q) (eq_items q))) \<le> eq_capacity q"

lemma length_queued: "queue_ok q \<Longrightarrow> int (length (queued q)) = eventQueue_sizeLocked q"
  by (simp add: queued_def queue_ok_def eventQueue_sizeLocked_def)

lemma signal_simps [simp]:
  "eq_items (signal_itemReady q) = eq_items q" "eq_items (signal_spaceReady q) = eq_items q"
  "eq_head (signal_itemReady q) = eq_head q" "eq_head (signal_spaceReady q) = eq_head q"
  "eq_capacity (signal_itemReady q) = eq_capacity q" "eq_capacity (signal_spaceReady q) = eq_capacity q"
  "eq_closed (signal_itemReady q) = eq_closed q" "eq_closed (signal_spaceReady q) = eq_closed q"
  "eq_itemReady (signal_itemReady q)" "eq_itemReady (signal_spaceReady q) = eq_itemReady q"
  "eq_spaceReady (signal_itemReady q) = eq_spaceReady q" "eq_spaceReady (signal_spaceReady q)"
  "eventQueue_sizeLocked (signal_itemReady q) = eventQueue_sizeLocked q"
  "eventQueue_sizeLocked (signal_spaceReady q) = eventQueue_sizeLocked q"
  by (simp_all add: signal_itemReady_def signal_spaceReady_def eventQueue_sizeLocked_def)

lemma queued_cong: "eq_items q = eq_items q' \<Longrightarrow> eq_head q = eq_head q' \<Longrightarrow> queued q = queued q'"
  by (simp add: queued_def)

lemma queue_ok_cong:
  "eq_items q = eq_items q' \<Longrightarrow> eq_head q = eq_head q' \<Longrightarrow> eq_capacity q = eq_capacity q' \<Longrightarrow> queue_ok q = queue_ok q'"
  by (simp add: queue_ok_def)

lemma append_fields [simp]:
  "eq_items (eventQueue_append e q) = eq_items q @ [Some e]" "eq_head (eventQueue_append e q) = eq_head q"
  "eq_capacity (eventQueue_append e q) = eq_capacity q" "eq_closed (eventQueue_append e q) = eq_closed q"
  by (simp_all add: eventQueue_append_def Let_def)

lemma queue_ok_append:
  assumes "queue_ok q" "eventQueue_sizeLocked q < eq_capacity q"
  shows "queue_ok (eventQueue_append e q)" and "queued (eventQueue_append e q) = queued q @ [e]"
proof -
  have "eq_head q \<le> length (eq_items q)" using assms by (simp add: queue_ok_def)
  then show "queue_ok (eventQueue_append e q)" "queued (eventQueue_append e q) = queued q @ [e]"
    using assms by (auto simp: queue_ok_def queued_def eventQueue_sizeLocked_def)
qed

lemma queue_ok_compact:
  assumes "queue_ok q"
  shows "queue_ok (eventQueue_compactLocked q)" and "queued (eventQueue_compactLocked q) = queued q"
  using assms by (auto simp: eventQueue_compactLocked_def queue_ok_def queued_def)

lemma compact_fields [simp]:
  "eq_capacity (eventQueue_compactLocked q) = eq_capacity q" "eq_closed (eventQueue_compactLocked q) = eq_closed q"
  by (simp_all add: eventQueue_compactLocked_def)

lemma take_fields [simp]:
  "eq_capacity (eventQueue_take q) = eq_capacity q" "eq_closed (eventQueue_take q) = eq_closed q"
  by (simp_all add: eventQueue_take_def Let_def)

lemma queued_front: "queue_ok q \<Longrightarrow> queued q = e # es \<Longrightarrow> eq_items q ! eq_head q = Some e"
proof -
  assume ok: "queue_ok q" and q: "queued q = e # es"
  then have "drop (eq_head q) (eq_items q) \<noteq> []" by (auto simp: queued_def)
  then have lt: "eq_head q < length (eq_items q)" by simp
  then have d: "drop (eq_head q) (eq_items q) = eq_items q ! eq_head q # drop (Suc (eq_head q)) (eq_items q)"
    by (simp add: Cons_nth_drop_Suc)
  then have "eq_items q ! eq_head q \<noteq> None" using ok by (simp add: queue_ok_def)
  with d q show ?thesis by (auto simp: queued_def)
qed

lemma queue_ok_take:
  assumes ok: "queue_ok q" and ne: "queued q \<noteq> []"
  shows "queue_ok (eventQueue_take q)" and "queued (eventQueue_take q) = tl (queued q)"
proof -
  let ?q1 = "q\<lparr>eq_items := (eq_items q)[eq_head q := None], eq_head := eq_head q + 1\<rparr>"
  have lt: "eq_head q < length (eq_items q)" using ne by (auto simp: queued_def)
  have d: "drop (eq_head q) (eq_items q) = eq_items q ! eq_head q # drop (Suc (eq_head q)) (eq_items q)"
    using lt by (simp add: Cons_nth_drop_Suc)
  have "queue_ok ?q1" using ok lt d by (auto simp: queue_ok_def take_Suc_update)
  moreover have "queued ?q1 = tl (queued q)" using d by (simp add: queued_def)
  moreover have "eq_items (eventQueue_take q) = eq_items (eventQueue_compactLocked ?q1)"
    "eq_head (eventQueue_take q) = eq_head (eventQueue_compactLocked ?q1)"
    "eq_capacity (eventQueue_take q) = eq_capacity (eventQueue_compactLocked ?q1)"
    by (simp_all add: eventQueue_take_def Let_def)
  ultimately show "queue_ok (eventQueue_take q)" "queued (eventQueue_take q) = tl (queued q)"
    using queue_ok_compact [of ?q1] queue_ok_cong queued_cong by metis+
qed

lemma filter_fields [simp]:
  "eq_capacity (eventQueue_filter m q) = eq_capacity q" "eq_closed (eventQueue_filter m q) = eq_closed q"
  "eq_itemReady (eventQueue_filter m q) = eq_itemReady q" "eq_spaceReady (eventQueue_filter m q)"
  by (simp_all add: eventQueue_filter_def)

lemma queue_ok_filter:
  assumes "queue_ok q"
  shows "queue_ok (eventQueue_filter m q)" and "queued (eventQueue_filter m q) = filter (\<lambda>e. \<not> m e) (queued q)"
proof -
  let ?xs = "drop (eq_head q) (eq_items q)"
  have some: "\<forall>s \<in> set ?xs. s \<noteq> None" using assms by (simp add: queue_ok_def)
  have "length (filter (\<lambda>s. \<not> slot_matches m s) ?xs) \<le> length ?xs" by (rule length_filter_le)
  then show "queue_ok (eventQueue_filter m q)"
    using assms some by (auto simp: queue_ok_def eventQueue_filter_def kept_prefix_filter)
  have "map the (filter (\<lambda>s. \<not> slot_matches m s) xs) = filter (\<lambda>e. \<not> m e) (map the xs)"
    if "\<forall>s \<in> set xs. s \<noteq> None" for xs
    using that by (induction xs) (auto simp: slot_matches_def)
  from this [OF some] show "queued (eventQueue_filter m q) = filter (\<lambda>e. \<not> m e) (queued q)"
    by (simp add: queued_def eventQueue_filter_def kept_prefix_filter)
qed

interpretation send_queue: bounded_fifo eventQueue_append "\<lambda>q. eq_items q ! eq_head q" eventQueue_take
  eventQueue_filter "\<lambda>q. eventQueue_sizeLocked q < eq_capacity q" queued eq_capacity queue_ok
proof unfold_locales
  show "int (length (queued q)) \<le> eq_capacity q" if "queue_ok q" for q
    using that unfolding queue_ok_def queued_def by simp linarith
qed (simp_all add: queue_ok_append queued_front queue_ok_take queue_ok_filter length_queued)

lemma queue_ok_new [simp]: "0 \<le> capacity \<Longrightarrow> queue_ok (newEventQueue capacity)"
  by (simp add: queue_ok_def newEventQueue_def)

lemma queued_new [simp]: "queued (newEventQueue capacity) = []"
  by (simp add: queued_def newEventQueue_def)

lemma close_fields [simp]:
  "eq_items (eventQueue_close q) = eq_items q" "eq_head (eventQueue_close q) = eq_head q"
  "eq_capacity (eventQueue_close q) = eq_capacity q" "eq_closed (eventQueue_close q)"
  "queued (eventQueue_close q) = queued q" "queue_ok (eventQueue_close q) = queue_ok q"
  by (simp_all add: eventQueue_close_def queued_def queue_ok_def)

lemma eventQueue_drain_spec:
  "queue_ok q \<Longrightarrow> fst (eventQueue_drain q) = map Some (queued q)"
  "queued (snd (eventQueue_drain q)) = []"
  "queue_ok q \<Longrightarrow> queue_ok (snd (eventQueue_drain q))"
proof -
  show "queued (snd (eventQueue_drain q)) = []" by (simp add: eventQueue_drain_def queued_def)
  show "fst (eventQueue_drain q) = map Some (queued q)" if "queue_ok q"
  proof -
    have "map Some (map the xs) = xs" if "\<forall>s \<in> set xs. s \<noteq> None" for xs :: "client_event option list"
      using that by (induction xs) auto
    then show ?thesis using \<open>queue_ok q\<close> by (simp add: eventQueue_drain_def queued_def queue_ok_def)
  qed
  show "queue_ok (snd (eventQueue_drain q))" if "queue_ok q"
    using that by (auto simp: eventQueue_drain_def queue_ok_def)
qed

text \<open>After a pop the slice wastes fewer than 1024 slots, or fewer than it uses.\<close>

lemma take_compacted:
  "let q' = eventQueue_take q in eq_head q' < 1024 \<or> eq_head q' * 2 < length (eq_items q')"
  by (auto simp: eventQueue_take_def eventQueue_compactLocked_def Let_def)

section \<open>The operations refine a list\<close>

text \<open>C26. \<^verbatim>\<open>push\<close> on a well-formed queue: it fails with the context's error or
  \<^verbatim>\<open>ErrClosed\<close> and changes nothing, it blocks exactly when the context is live and the open queue is full, or it
  appends the event, with a fresh send order of its client, at the back.\<close>

theorem push_refines:
  assumes ok: "queue_ok q" and push: "eventQueue_push ctx e q w = (r, q', w')"
  shows "queue_ok q' \<and>
    (case r of
       PushErr x \<Rightarrow> q' = q \<and> w' = w \<and> (ctx (log w) = Some x \<or> ctx (log w) = None \<and> eq_closed q \<and> x = ErrClosed)
     | PushWait \<Rightarrow> q' = q \<and> w' = w \<and> ctx (log w) = None \<and> \<not> eq_closed q \<and> int (length (queued q)) = eq_capacity q
     | Pushed e1 \<Rightarrow> ctx (log w) = None \<and> \<not> eq_closed q \<and> int (length (queued q)) < eq_capacity q \<and>
         queued q' = queued q @ [e1] \<and> e1 = e\<lparr>ce_sendOrder := fst (client_assignOrder (heap w (ce_client e)))\<rparr> \<and>
         eq_itemReady q' \<and> heap w' = (heap w)(ce_client e := snd (client_assignOrder (heap w (ce_client e)))))"
proof (cases "ctx (log w) = None \<and> \<not> eq_closed q \<and> eventQueue_sizeLocked q < eq_capacity q")
  case True
  let ?e = "e\<lparr>ce_sendOrder := fst (client_assignOrder (heap w (ce_client e)))\<rparr>"
  have eq: "r = Pushed ?e" "q' = eventQueue_append ?e q"
    "w' = upd_client (ce_client e) (\<lambda>_. snd (client_assignOrder (heap w (ce_client e)))) w"
    using push True by (auto simp: eventQueue_push_def case_prod_unfold Let_def)
  have "eq_itemReady q'" by (simp add: eq eventQueue_append_def Let_def)
  then show ?thesis using True queue_ok_append [OF ok] length_queued [OF ok] by (simp add: eq)
next
  case False
  then show ?thesis
    using push ok send_queue.within_bound [OF ok] length_queued [OF ok]
    by (auto simp: eventQueue_push_def split: option.splits if_splits)
qed

definition demo_pending :: client_event where
  "demo_pending =
     \<lparr>ce_ClientID = ''a'', ce_Event = NewNamedEvent ''news'', ce_Message = \<lparr>msg_Event = ''news'', msg_Data = [],
        msg_HasData = False, msg_Retry = 0, msg_ID = [], msg_Comment = []\<rparr>,
      ce_client = 0, ce_attempts = 0, ce_retryAfter = 0, ce_retryOrder = 0, ce_generation = 0, ce_sendOrder = 0\<rparr>"

definition demo_world :: world where
  "demo_world =
     \<lparr>heap = (\<lambda>_. \<lparr>nextOrder = 0, nextTurn = 1, canceledOrders = [], connection = None, lastTransfer = 0,
        completeAfterMessage = False, inactive = False, connectionClosed = False, replayGeneration = 0\<rparr>),
      nextRef = 1, log = []\<rparr>"

definition demo_queue :: event_queue where
  "demo_queue = (newEventQueue 1)\<lparr>eq_items := [Some demo_pending]\<rparr>"

lemma demo_queue_ok: "queue_ok demo_queue" "queued demo_queue = [demo_pending]" "queue_ok (newEventQueue 1)"
  "queued (newEventQueue 1) = []"
  by (simp_all add: demo_queue_def newEventQueue_def queued_def queue_ok_def)

theorem push_refines_witness:
  "fst (eventQueue_push Background demo_pending demo_queue demo_world) = PushWait \<and>
   queued (fst (snd (eventQueue_push Background demo_pending (newEventQueue 1) demo_world))) =
     [demo_pending\<lparr>ce_sendOrder := fst (client_assignOrder (heap demo_world 0))\<rparr>]"
proof -
  obtain r q' w' where p: "eventQueue_push Background demo_pending demo_queue demo_world = (r, q', w')" by (metis surj_pair)
  have "r = PushWait" using push_refines [OF demo_queue_ok(1) p] demo_queue_ok(2)
    by (cases r) (simp_all add: Background_def demo_queue_def newEventQueue_def)
  moreover obtain r2 q2 w2 where p2: "eventQueue_push Background demo_pending (newEventQueue 1) demo_world = (r2, q2, w2)"
    by (metis surj_pair)
  have "queued q2 = [demo_pending\<lparr>ce_sendOrder := fst (client_assignOrder (heap demo_world 0))\<rparr>]"
    using push_refines [OF demo_queue_ok(3) p2] demo_queue_ok(4)
    by (cases r2) (simp_all add: Background_def newEventQueue_def demo_pending_def)
  ultimately show ?thesis using p p2 by simp
qed

text \<open>C27. \<^verbatim>\<open>pop\<close> on a well-formed queue: a closed queue ends the caller and keeps its events
  for the flush, an empty one makes it wait, and otherwise the caller gets the front event, which leaves
  the queue; the slot of a popped event is released and the slice wastes fewer than 1024 slots or
  fewer than it uses.\<close>

theorem pop_refines:
  assumes ok: "queue_ok q" and pop: "eventQueue_pop q = (r, q')"
  shows "queue_ok q' \<and>
    (case r of
       PopClosed \<Rightarrow> eq_closed q \<and> q' = q
     | PopWait \<Rightarrow> \<not> eq_closed q \<and> queued q = [] \<and> q' = q
     | Popped s \<Rightarrow> \<not> eq_closed q \<and> (\<exists>e. s = Some e \<and> queued q = e # queued q') \<and> eq_spaceReady q' \<and>
         (queued q' \<noteq> [] \<longrightarrow> eq_itemReady q') \<and> (eq_head q' < 1024 \<or> eq_head q' * 2 < length (eq_items q')))"
proof (cases "\<not> eq_closed q \<and> queued q \<noteq> []")
  case True
  then obtain e es where q: "queued q = e # es" by (cases "queued q") auto
  have eq: "r = Popped (Some e)" "q' = eventQueue_take q"
    using pop True queued_front [OF ok q] length_queued [OF ok] q by (auto simp: eventQueue_pop_def)
  have q': "queue_ok q'" "queued q' = es" using queue_ok_take [OF ok] q by (simp_all add: eq)
  moreover have "eq_spaceReady q'" by (simp add: eq eventQueue_take_def Let_def)
  moreover have "eq_itemReady q'" if "es \<noteq> []"
  proof -
    have "eventQueue_sizeLocked q' > 0" using that length_queued [OF q'(1)] unfolding q'(2) by (metis length_greater_0_conv of_nat_0_less_iff)
    then show ?thesis by (simp add: eq eventQueue_take_def Let_def split: if_splits)
  qed
  ultimately show ?thesis using True q eq take_compacted [of q] by (simp add: Let_def)
next
  case False
  then show ?thesis using pop ok length_queued [OF ok]
    by (auto simp: eventQueue_pop_def split: if_splits)
qed

theorem pop_refines_witness:
  "fst (eventQueue_pop (newEventQueue 1)) = PopWait \<and> fst (eventQueue_pop demo_queue) = Popped (Some demo_pending)"
proof -
  obtain r q' where p: "eventQueue_pop (newEventQueue 1) = (r, q')" by fastforce
  have "r = PopWait" using pop_refines [OF demo_queue_ok(3) p] demo_queue_ok(4) by (cases r) (simp_all add: newEventQueue_def)
  moreover obtain r2 q2 where p2: "eventQueue_pop demo_queue = (r2, q2)" by fastforce
  have "r2 = Popped (Some demo_pending)" using pop_refines [OF demo_queue_ok(1) p2] demo_queue_ok(2)
    by (cases r2) (auto simp: demo_queue_def newEventQueue_def)
  ultimately show ?thesis using p p2 by simp
qed

text \<open>\<^verbatim>\<open>remove\<close> keeps exactly the events that do not match, in order, and cancels the
  turn of each removed one; \<^verbatim>\<open>close\<close> keeps the events; \<^verbatim>\<open>drain\<close> hands all of them out in
  order and leaves the queue empty.\<close>

lemma remove_close_drain:
  assumes ok: "queue_ok q"
  shows "queue_ok (fst (eventQueue_remove match q w)) \<and>
    queued (fst (eventQueue_remove match q w)) = filter (\<lambda>e. \<not> match e) (queued q) \<and>
    snd (eventQueue_remove match q w) =
      fold (\<lambda>e. upd_client (ce_client e) (client_cancelTurn (ce_sendOrder e))) (filter match (queued q)) w \<and>
    queued (eventQueue_close q) = queued q \<and> eq_closed (eventQueue_close q) \<and>
    fst (eventQueue_drain q) = map Some (queued q) \<and> queued (snd (eventQueue_drain q)) = [] \<and> queue_ok (snd (eventQueue_drain q))"
proof -
  have "fold (cancel_slot match) (map Some es) w =
      fold (\<lambda>e. upd_client (ce_client e) (client_cancelTurn (ce_sendOrder e))) (filter match es) w" for es
    by (induction es arbitrary: w) (simp_all add: cancel_slot_def)
  moreover have "drop (eq_head q) (eq_items q) = map Some (queued q)"
    using eventQueue_drain_spec(1) [OF ok] by (simp add: eventQueue_drain_def)
  ultimately show ?thesis
    using queue_ok_filter [OF ok, of match] eventQueue_drain_spec [of q] ok by (simp add: eventQueue_remove_def)
qed

end
