(* ===== verification/Tickets.thy ===== *)
theory Tickets
  imports Send_Queue
begin

text \<open>
  The send order of \<^verbatim>\<open>bus.go\<close> across components: the tickets that a client has given out are
  exactly the \<^verbatim>\<open>sendOrder\<close>s of its events that wait in the send queue or that a worker took from
  it and has not finished. The lemmas give the effect of each queue operation on that
  correspondence, and what it implies for \<^verbatim>\<open>waitForTurn\<close>.
\<close>

section \<open>What a client record is made of\<close>

text \<open>The three order fields, and the rest (\<^const>\<open>turns.more\<close>), which the order operations keep.\<close>

definition turns_at :: "'a world_scheme \<Rightarrow> cref \<Rightarrow> nat \<times> nat \<times> nat list" where
  "turns_at w c = (nextOrder (heap w c), nextTurn (heap w c), canceledOrders (heap w c))"

definition life_at :: "'a world_scheme \<Rightarrow> cref \<Rightarrow> \<lparr>connection :: connection, lastTransfer :: instant,
    completeAfterMessage :: bool, inactive :: bool, connectionClosed :: bool, replayGeneration :: nat\<rparr>" where
  "life_at w c = turns.more (heap w c)"

lemma life_fields:
  fixes a b :: client
  assumes "turns.more a = turns.more b"
  shows "connection a = connection b" "lastTransfer a = lastTransfer b" "inactive a = inactive b"
    "completeAfterMessage a = completeAfterMessage b" "connectionClosed a = connectionClosed b"
    "replayGeneration a = replayGeneration b"
  using assms by (cases a; cases b; simp)+

lemma order_ops_more [simp]:
  "turns.more (snd (client_assignOrder t)) = turns.more t"
  "turns.more (client_finishTurn k t) = turns.more t"
  "turns.more (client_cancelTurn k t) = turns.more t"
  by (simp_all add: client_assignOrder_def client_finishTurn_def client_cancelTurn_def
      client_advanceCanceledLocked_def Let_def split: prod.splits)

lemma world_inv_life:
  assumes "world_inv w" "nextRef w' = nextRef w" "log w' = log w" "life_at w' = life_at w"
  shows "world_inv w'"
proof -
  have "turns.more (heap w' c) = turns.more (heap w c)" for c
    using assms(4) by (simp add: life_at_def fun_eq_iff)
  note same = life_fields [OF this]
  then show ?thesis using assms(1) by (simp add: world_inv_def client_inv_def assms(2,3) same)
qed

lemma turns_ok_cong:
  "nextOrder a = nextOrder b \<Longrightarrow> nextTurn a = nextTurn b \<Longrightarrow> canceledOrders a = canceledOrders b \<Longrightarrow>
   turns_ok a = turns_ok b \<and> tickets_out a = tickets_out b"
  by (simp add: turns_ok_def tickets_out_def)

section \<open>Tickets held and queued\<close>

definition tickets :: "cref \<Rightarrow> client_event list \<Rightarrow> nat list" where
  "tickets c es = map ce_sendOrder (filter (\<lambda>e. ce_client e = c) es)"

lemma tickets_simps [simp]:
  "tickets c [] = []" "tickets c (xs @ ys) = tickets c xs @ tickets c ys"
  "tickets c (e # es) = (if ce_client e = c then ce_sendOrder e # tickets c es else tickets c es)"
  by (simp_all add: tickets_def)

lemma set_tickets: "set (tickets c es) = ce_sendOrder ` {e \<in> set es. ce_client e = c}"
  by (auto simp: tickets_def)

text \<open>The tickets in hand are distinct and older than the queued ones; those are in order.\<close>

definition ticket_lists :: "nat list \<Rightarrow> nat list \<Rightarrow> nat set \<Rightarrow> bool" where
  "ticket_lists hs qs out \<longleftrightarrow> distinct hs \<and> sorted_wrt (<) qs \<and> (\<forall>h \<in> set hs. \<forall>q \<in> set qs. h < q) \<and>
     set hs \<union> set qs = out"

lemma ticket_lists_pop: "ticket_lists (xs @ ys) (q # qs) out \<Longrightarrow> ticket_lists (xs @ q # ys) qs out"
  by (auto simp: ticket_lists_def)

lemma ticket_lists_drop_queued:
  "ticket_lists hs (xs @ k # ys) out \<Longrightarrow> ticket_lists hs (xs @ ys) (out - {k})"
  by (auto simp: ticket_lists_def sorted_wrt_append)

lemma ticket_lists_drop_held:
  "ticket_lists (xs @ k # ys) qs out \<Longrightarrow> ticket_lists (xs @ ys) qs (out - {k})"
  by (auto simp: ticket_lists_def)

lemma ticket_lists_assign:
  assumes "turns_ok t" "tickets_room t" "ticket_lists hs qs (tickets_out t)"
  shows "ticket_lists hs (qs @ [fst (client_assignOrder t)]) (tickets_out (snd (client_assignOrder t)))"
proof -
  have "set hs \<union> set qs = tickets_out t" using assms(3) by (simp add: ticket_lists_def)
  then have "\<forall>k \<in> set hs \<union> set qs. k < fst (client_assignOrder t)"
    using client_turns.assign_new [OF assms(1,2)] by simp
  then show ?thesis using assms(3) client_turns.assign_out [OF assms(1,2)]
    by (auto simp: ticket_lists_def sorted_wrt_append)
qed

text \<open>The events that goroutines have in hand: those that wait for their turn, those that have it,
  and those parked for a retry, which hold no ticket.\<close>

type_synonym hands = "client_event list \<times> client_event list \<times> client_event list"

definition serving :: "hands \<Rightarrow> client_event list" where
  "serving h = fst (snd h)"

definition parked :: "hands \<Rightarrow> client_event list" where
  "parked h = snd (snd h)"

definition in_hand :: "hands \<Rightarrow> client_event list" where
  "in_hand h = fst h @ serving h"

lemma hands_simps [simp]:
  "serving (ws, ss, ps) = ss" "parked (ws, ss, ps) = ps" "in_hand (ws, ss, ps) = ws @ ss"
  by (simp_all add: serving_def parked_def in_hand_def)

definition tickets_ok :: "hands \<Rightarrow> client_event list \<Rightarrow> 'a world_scheme \<Rightarrow> bool" where
  "tickets_ok h es w \<longleftrightarrow> (\<forall>e \<in> set (in_hand h) \<union> set es. ce_client e < nextRef w) \<and>
     (\<forall>e \<in> set (parked h). ce_client e < nextRef w) \<and>
     (\<forall>c < nextRef w. turns_ok (heap w c) \<and> ticket_lists (tickets c (in_hand h)) (tickets c es) (tickets_out (heap w c))) \<and>
     (\<forall>e \<in> set (serving h). ce_sendOrder e = nextTurn (heap w (ce_client e)))"

lemma tickets_okD:
  assumes "tickets_ok h es w"
  shows "c < nextRef w \<Longrightarrow> turns_ok (heap w c)"
    "c < nextRef w \<Longrightarrow> ticket_lists (tickets c (in_hand h)) (tickets c es) (tickets_out (heap w c))"
    "e \<in> set (in_hand h) \<union> set es \<Longrightarrow> ce_client e < nextRef w"
    "e \<in> set (serving h) \<Longrightarrow> ce_sendOrder e = nextTurn (heap w (ce_client e))"
    "e \<in> set (parked h) \<Longrightarrow> ce_client e < nextRef w"
  using assms unfolding tickets_ok_def by blast+

lemma tickets_ok_turns:
  assumes "tickets_ok h es w" "nextRef w' = nextRef w" "turns_at w' = turns_at w"
  shows "tickets_ok h es w'"
proof -
  have same: "turns_at w' c = turns_at w c" for c using assms(3) by simp
  then have "turns_ok (heap w' c) = turns_ok (heap w c) \<and> tickets_out (heap w' c) = tickets_out (heap w c)" for c
    by (intro turns_ok_cong) (auto simp: turns_at_def)
  moreover have "nextTurn (heap w' c) = nextTurn (heap w c)" for c using same [of c] by (simp add: turns_at_def)
  ultimately show ?thesis using assms by (simp add: tickets_ok_def)
qed

text \<open>A change of one client's order fields.\<close>

lemma tickets_ok_upd:
  assumes "tickets_ok h es w" "c < nextRef w" "\<forall>e \<in> set (in_hand h') \<union> set es'. ce_client e < nextRef w"
    and "\<And>c'. c' \<noteq> c \<Longrightarrow> tickets c' (in_hand h') = tickets c' (in_hand h) \<and> tickets c' es' = tickets c' es"
    and "turns_ok (f (heap w c))" "ticket_lists (tickets c (in_hand h')) (tickets c es') (tickets_out (f (heap w c)))"
    and "set (serving h') \<subseteq> set (serving h)" "parked h' = parked h"
    and "\<And>e. e \<in> set (serving h') \<Longrightarrow> ce_client e = c \<Longrightarrow> ce_sendOrder e = nextTurn (f (heap w c))"
  shows "tickets_ok h' es' (upd_client c f w)"
  using assms by (auto simp: tickets_ok_def)

lemma ticket_in_hand:
  assumes "tickets_ok h es w" "e \<in> set (in_hand h) \<union> set es"
  shows "ce_sendOrder e \<in> tickets_out (heap w (ce_client e))"
proof -
  have "ce_sendOrder e \<in> set (tickets (ce_client e) (in_hand h)) \<union> set (tickets (ce_client e) es)"
    using assms(2) by (auto simp: set_tickets)
  then show ?thesis using tickets_okD(2) [OF assms(1) tickets_okD(3) [OF assms]] unfolding ticket_lists_def by blast
qed

lemma serving_in_hand: "e \<in> set (serving h) \<Longrightarrow> e \<in> set (in_hand h)"
  by (simp add: in_hand_def)

lemma tickets_ok_push:
  assumes ok: "tickets_ok h es w" and c: "ce_client e < nextRef w" and room: "tickets_room (heap w (ce_client e))"
    and assign: "client_assignOrder (heap w (ce_client e)) = (order, cl)"
  shows "tickets_ok h (es @ [e\<lparr>ce_sendOrder := order\<rparr>]) (upd_client (ce_client e) (\<lambda>_. cl) w)"
proof (rule tickets_ok_upd [OF ok c])
  let ?t = "heap w (ce_client e)"
  note t = tickets_okD(1,2) [OF ok c]
  show "turns_ok cl" using client_turns.assign_invar [OF t(1) room] assign by simp
  show "ticket_lists (tickets (ce_client e) (in_hand h)) (tickets (ce_client e) (es @ [e\<lparr>ce_sendOrder := order\<rparr>])) (tickets_out cl)"
    using ticket_lists_assign [OF t(1) room t(2)] assign by simp
  fix e' assume e': "e' \<in> set (serving h)" "ce_client e' = ce_client e"
  then have "ce_sendOrder e' = nextTurn ?t" "ce_sendOrder e' \<in> tickets_out ?t"
    using tickets_okD(4) [OF ok e'(1)] ticket_in_hand [OF ok, of e'] serving_in_hand [of e' h] by simp_all
  moreover have "nextTurn cl = nextTurn ?t" if "nextTurn ?t \<noteq> 0"
    using assign that by (auto simp: client_assignOrder_def Let_def)
  ultimately show "ce_sendOrder e' = nextTurn cl" by (auto simp: tickets_out_def)
qed (use tickets_okD(3) [OF ok] c in auto)

lemma tickets_ok_pop:
  assumes "tickets_ok (xs @ ys, ss, ps) (e # es) w"
  shows "tickets_ok (xs @ e # ys, ss, ps) es w"
  using assms ticket_lists_pop [of _ "_ @ _"] ticket_lists_pop
  by (auto simp: tickets_ok_def in_hand_def split: if_splits)

text \<open>Taking the turn, and finishing it.\<close>

lemma tickets_ok_serve:
  assumes ok: "tickets_ok (xs @ e # ys, ss @ zs, ps) es w"
    and turn: "client_waitForTurn (ce_sendOrder e) (heap w (ce_client e)) = Some True"
  shows "tickets_ok (xs @ ys, ss @ e # zs, ps) es w"
proof -
  have "ticket_lists (tickets c (in_hand (xs @ ys, ss @ e # zs, ps))) qs out"
    if "ticket_lists (tickets c (in_hand (xs @ e # ys, ss @ zs, ps))) qs out" for c qs out
    using that by (auto simp: ticket_lists_def in_hand_def split: if_splits)
  then show ?thesis using ok turn
    by (auto simp: tickets_ok_def in_hand_def client_waitForTurn_def split: if_splits)
qed

lemma tickets_ok_cancel:
  assumes ok: "tickets_ok h (xs @ e # ys) w"
  shows "tickets_ok h (xs @ ys) (upd_client (ce_client e) (client_cancelTurn (ce_sendOrder e)) w)"
proof (rule tickets_ok_upd [OF ok])
  show c: "ce_client e < nextRef w" by (rule tickets_okD(3) [OF ok]) simp
  have out: "ce_sendOrder e \<in> tickets_out (heap w (ce_client e))" by (rule ticket_in_hand [OF ok]) simp
  note t = tickets_okD(1,2) [OF ok c]
  show "turns_ok (client_cancelTurn (ce_sendOrder e) (heap w (ce_client e)))"
    by (rule client_turns.cancel_invar [OF t(1) out])
  show "ticket_lists (tickets (ce_client e) (in_hand h)) (tickets (ce_client e) (xs @ ys))
      (tickets_out (client_cancelTurn (ce_sendOrder e) (heap w (ce_client e))))"
    using t(2) by (simp add: client_turns.cancel_out [OF t(1) out] ticket_lists_drop_queued)
  fix e' assume e': "e' \<in> set (serving h)" "ce_client e' = ce_client e"
  then have "ce_sendOrder e' \<in> set (tickets (ce_client e) (in_hand h))"
    using serving_in_hand [of e' h] by (auto simp: set_tickets)
  then have "ce_sendOrder e' < ce_sendOrder e" using t(2) by (auto simp: ticket_lists_def)
  then show "ce_sendOrder e' = nextTurn (client_cancelTurn (ce_sendOrder e) (heap w (ce_client e)))"
    using tickets_okD(4) [OF ok e'(1)] e'(2) by (simp add: client_cancelTurn_def)
qed (use tickets_okD(3) [OF ok] in auto)

lemma tickets_ok_finish:
  assumes ok: "tickets_ok (ws, xs @ e # ys, ps) es w"
  shows "tickets_ok (ws, xs @ ys, ps) es (upd_client (ce_client e) (client_finishTurn (ce_sendOrder e)) w)"
proof (rule tickets_ok_upd [OF ok])
  let ?t = "heap w (ce_client e)"
  show c: "ce_client e < nextRef w" by (rule tickets_okD(3) [OF ok]) (simp add: in_hand_def)
  have out: "ce_sendOrder e \<in> tickets_out ?t" by (rule ticket_in_hand [OF ok]) (simp add: in_hand_def)
  have turn: "client_waitForTurn (ce_sendOrder e) ?t = Some True"
    using tickets_okD(4) [OF ok, of e] by (simp add: client_waitForTurn_def)
  note t = tickets_okD(1,2) [OF ok c]
  show "turns_ok (client_finishTurn (ce_sendOrder e) ?t)"
    by (rule client_turns.finish_invar [OF t(1) out turn])
  show "ticket_lists (tickets (ce_client e) (in_hand (ws, xs @ ys, ps))) (tickets (ce_client e) es)
      (tickets_out (client_finishTurn (ce_sendOrder e) ?t))"
    using t(2) ticket_lists_drop_held [of "tickets (ce_client e) ws @ tickets (ce_client e) xs"]
    by (simp add: client_turns.finish_out [OF t(1) out turn] in_hand_def)
  fix e' assume e': "e' \<in> set (serving (ws, xs @ ys, ps))" "ce_client e' = ce_client e"
  then have "ce_sendOrder e' \<in> set (tickets (ce_client e) (xs @ ys))" by (auto simp: set_tickets)
  moreover have "ce_sendOrder e' = ce_sendOrder e"
    using tickets_okD(4) [OF ok, of e'] tickets_okD(4) [OF ok, of e] e' by auto
  ultimately have False using t(2) by (auto simp: ticket_lists_def in_hand_def)
  then show "ce_sendOrder e' = nextTurn (client_finishTurn (ce_sendOrder e) ?t)" ..
qed (use tickets_okD(3) [OF ok] in \<open>auto simp: in_hand_def\<close>)

lemma tickets_ok_fold_cancel:
  fixes w :: "'a world_scheme"
  assumes "tickets_ok h (xs @ es) w"
  shows "tickets_ok h (xs @ filter (\<lambda>e. \<not> match e) es) (fold (cancel_slot match) (map Some es) w)"
  using assms
proof (induction es arbitrary: xs w)
  case (Cons e es)
  show ?case
  proof (cases "match e")
    case True
    let ?w = "upd_client (ce_client e) (client_cancelTurn (ce_sendOrder e)) w"
    have "tickets_ok h (xs @ es) ?w" using Cons.prems by (intro tickets_ok_cancel) auto
    then show ?thesis using Cons.IH [of xs ?w] True by (simp add: cancel_slot_def)
  next
    case False
    then show ?thesis using Cons.IH [of "xs @ [e]" w] Cons.prems by (simp add: cancel_slot_def)
  qed
qed simp

lemma cancel_slot_frame [simp]:
  "log (cancel_slot match s w) = log w" "nextRef (cancel_slot match s w) = nextRef w"
  "world.more (cancel_slot match s w) = world.more w" "life_at (cancel_slot match s w) = life_at w"
  by (auto simp: cancel_slot_def life_at_def split: option.splits)

lemma fold_cancel_frame [simp]:
  "log (fold (cancel_slot match) ss w) = log w" "nextRef (fold (cancel_slot match) ss w) = nextRef w"
  "world.more (fold (cancel_slot match) ss w) = world.more w"
  "life_at (fold (cancel_slot match) ss w) = life_at w"
  by (induction ss arbitrary: w) simp_all

text \<open>The occupied slots of the queue, and the queue operations in terms of them.\<close>

lemma slots_queued: "queue_ok q \<Longrightarrow> drop (eq_head q) (eq_items q) = map Some (queued q)"
  using eventQueue_drain_spec(1) [of q] by (simp add: eventQueue_drain_def)

lemma tickets_ok_remove:
  assumes "queue_ok q" "tickets_ok held (queued q) w" "eventQueue_remove match q w = (q', w')"
  shows "tickets_ok held (queued q') w'"
  using tickets_ok_fold_cancel [of held "[]" "queued q" w match] assms
  by (auto simp: eventQueue_remove_def slots_queued queue_ok_filter)

section \<open>What the correspondence means for waiting\<close>

text \<open>No ticket in hand or in the queue is ever refused.\<close>

lemma ticket_not_refused:
  assumes "tickets_ok h es w" "e \<in> set (in_hand h) \<union> set es"
  shows "client_waitForTurn (ce_sendOrder e) (heap w (ce_client e)) \<noteq> Some False"
  using client_turns.never_skipped [OF tickets_okD(1) [OF assms(1) tickets_okD(3) [OF assms]] ticket_in_hand [OF assms]] .

text \<open>Whenever some worker holds an event of a client, one of the events in hand has its turn:
  a worker never waits for an event that is still in the queue.\<close>

lemma holder_has_turn:
  assumes ok: "tickets_ok h es w" and e: "e \<in> set (in_hand h)"
  shows "\<exists>e' \<in> set (in_hand h). ce_client e' = ce_client e \<and>
    client_waitForTurn (ce_sendOrder e') (heap w (ce_client e)) = Some True"
proof -
  let ?c = "ce_client e" and ?t = "heap w (ce_client e)"
  have c: "?c < nextRef w" by (rule tickets_okD(3) [OF ok]) (simp add: e)
  note lists = tickets_okD(2) [OF ok c]
  have mine: "ce_sendOrder e \<in> set (tickets ?c (in_hand h))" using e by (auto simp: set_tickets)
  have out: "tickets_out ?t = set (tickets ?c (in_hand h)) \<union> set (tickets ?c es)"
    using lists by (auto simp: ticket_lists_def)
  with mine have "tickets_out ?t \<noteq> {}" by auto
  then obtain k where k: "k \<in> tickets_out ?t" "client_waitForTurn k ?t = Some True"
    using client_turns.one_served [OF tickets_okD(1) [OF ok c]] by blast
  have "k \<in> set (tickets ?c (in_hand h))"
  proof (rule ccontr)
    assume "k \<notin> set (tickets ?c (in_hand h))"
    then have "ce_sendOrder e < k" using k(1) out lists mine by (auto simp: ticket_lists_def)
    moreover have "k = Min (tickets_out ?t)"
      using k client_turns.wait_out [OF tickets_okD(1) [OF ok c] k(1)] by (auto split: if_splits)
    moreover have "ce_sendOrder e \<in> tickets_out ?t" using out mine by simp
    ultimately show False by (metis Min_le finite_tickets_out not_less)
  qed
  then show ?thesis using k(2) by (auto simp: set_tickets)
qed

text \<open>An event that is alone in hand has its turn, and so has the front of the queue when no hand
  is full.\<close>

lemma alone_has_turn:
  assumes "tickets_ok h es w" "in_hand h = [e]"
  shows "client_waitForTurn (ce_sendOrder e) (heap w (ce_client e)) = Some True"
  using holder_has_turn [OF assms(1), of e] assms(2) by simp

lemma front_has_turn:
  assumes "tickets_ok ([], [], []) (e # es) w"
  shows "client_waitForTurn (ce_sendOrder e) (heap w (ce_client e)) = Some True"
proof -
  have "tickets_ok ([e], [], []) es w" using tickets_ok_pop [of "[]" "[]" "[]" "[]" e es w] assms by simp
  then show ?thesis by (rule alone_has_turn) (simp add: in_hand_def)
qed

end
