(* ===== verification/Go_Heap.thy ===== *)
theory Go_Heap
  imports Prelude
begin

text \<open>
  The standard library's \<^verbatim>\<open>container/heap\<close>, which \<^verbatim>\<open>retryQueue\<close> calls: \<^verbatim>\<open>up\<close>,
  \<^verbatim>\<open>down\<close>, \<^verbatim>\<open>Init\<close>, \<^verbatim>\<open>Push\<close> and \<^verbatim>\<open>Pop\<close> over an array with a given
  \<^verbatim>\<open>Less\<close>. The locale \<open>heap_order\<close> states what they need of \<^verbatim>\<open>Less\<close> (a strict weak
  order) and proves, once, that they keep the heap property, permute the elements, and put a
  least element at index 0.
\<close>

section \<open>The operations\<close>

definition heap_Swap :: "nat \<Rightarrow> nat \<Rightarrow> 'a list \<Rightarrow> 'a list" where
  "heap_Swap i j h = h[i := h ! j, j := h ! i]"

function heap_up :: "('a \<Rightarrow> 'a \<Rightarrow> bool) \<Rightarrow> 'a list \<Rightarrow> nat \<Rightarrow> 'a list" where
  "heap_up lt h j =
     (let i = (j - 1) div 2
      in if i = j \<or> \<not> lt (h ! j) (h ! i) then h else heap_up lt (heap_Swap i j h) i)"
  by pat_completeness auto
termination
  by (relation "measure (\<lambda>(lt, h, j). j)") auto

text \<open>The smaller of the two children \<open>2 * i + 1\<close> and \<open>2 * i + 2\<close> below \<open>n\<close>.\<close>

definition min_child :: "('a \<Rightarrow> 'a \<Rightarrow> bool) \<Rightarrow> 'a list \<Rightarrow> nat \<Rightarrow> nat \<Rightarrow> nat" where
  "min_child lt h i n =
     (let j1 = 2 * i + 1; j2 = j1 + 1 in if j2 < n \<and> lt (h ! j2) (h ! j1) then j2 else j1)"

lemma min_child_greater [simp]: "i < min_child lt h i n"
  by (simp add: min_child_def Let_def)

lemma min_child_pos [simp]: "0 < min_child lt h i n"
  by (simp add: min_child_def Let_def)

function heap_down :: "('a \<Rightarrow> 'a \<Rightarrow> bool) \<Rightarrow> 'a list \<Rightarrow> nat \<Rightarrow> nat \<Rightarrow> 'a list" where
  "heap_down lt h i n =
     (if 2 * i + 1 \<ge> n then h
      else let j = min_child lt h i n
           in if \<not> lt (h ! j) (h ! i) then h else heap_down lt (heap_Swap i j h) j n)"
  by pat_completeness auto
termination
  by (relation "measure (\<lambda>(lt, h, i, n). n - i)") (auto intro: diff_less_mono2)

declare heap_up.simps [simp del] heap_down.simps [simp del]

definition heap_Init :: "('a \<Rightarrow> 'a \<Rightarrow> bool) \<Rightarrow> 'a list \<Rightarrow> 'a list" where
  "heap_Init lt h = fold (\<lambda>i h. heap_down lt h i (length h)) (rev [0..<length h div 2]) h"

definition heap_Push :: "('a \<Rightarrow> 'a \<Rightarrow> bool) \<Rightarrow> 'a \<Rightarrow> 'a list \<Rightarrow> 'a list" where
  "heap_Push lt x h = (let h1 = h @ [x] in heap_up lt h1 (length h1 - 1))"

text \<open>\<^verbatim>\<open>Pop\<close> of an empty heap indexes out of range and panics: \<^const>\<open>None\<close>.\<close>

definition heap_Pop :: "('a \<Rightarrow> 'a \<Rightarrow> bool) \<Rightarrow> 'a list \<Rightarrow> ('a \<times> 'a list) option" where
  "heap_Pop lt h =
     (if h = [] then None
      else let n = length h - 1; h1 = heap_Swap 0 n h; h2 = heap_down lt h1 0 n
           in Some (h2 ! n, take n h2))"

section \<open>Swapping and permutation\<close>

lemma length_heap_Swap [simp]: "length (heap_Swap i j h) = length h"
  by (simp add: heap_Swap_def)

lemma nth_heap_Swap:
  "i < length h \<Longrightarrow> j < length h \<Longrightarrow> k < length h \<Longrightarrow>
   heap_Swap i j h ! k = (if k = j then h ! i else if k = i then h ! j else h ! k)"
  by (simp add: heap_Swap_def nth_list_update)

lemma mset_heap_Swap [simp]: "i < length h \<Longrightarrow> j < length h \<Longrightarrow> mset (heap_Swap i j h) = mset h"
  by (simp add: heap_Swap_def mset_swap_update)

lemma heap_up_perm:
  "j < length h \<Longrightarrow> length (heap_up lt h j) = length h \<and> mset (heap_up lt h j) = mset h"
proof (induction lt h j rule: heap_up.induct)
  case (1 lt h j)
  show ?case
  proof (cases "(j - 1) div 2 = j \<or> \<not> lt (h ! j) (h ! ((j - 1) div 2))")
    case True
    then show ?thesis by (auto simp: heap_up.simps [of lt h j] Let_def)
  next
    case False
    moreover have "(j - 1) div 2 < length h" using "1.prems" by simp
    ultimately show ?thesis
      using "1.IH" [OF refl] "1.prems" by (simp add: heap_up.simps [of lt h j] Let_def)
  qed
qed

lemma min_child_less: "2 * i + 1 < n \<Longrightarrow> min_child lt h i n < n"
  by (simp add: min_child_def Let_def)

lemma heap_down_perm:
  "n \<le> length h \<Longrightarrow> i < length h \<Longrightarrow>
   length (heap_down lt h i n) = length h \<and> mset (heap_down lt h i n) = mset h \<and>
   (\<forall>k \<ge> n. k < length h \<longrightarrow> i < n \<longrightarrow> heap_down lt h i n ! k = h ! k)"
proof (induction lt h i n rule: heap_down.induct)
  case (1 lt h i n)
  let ?j = "min_child lt h i n"
  show ?case
  proof (cases "2 * i + 1 \<ge> n \<or> \<not> lt (h ! ?j) (h ! i)")
    case True
    then show ?thesis by (auto simp: heap_down.simps [of lt h i n] Let_def)
  next
    case False
    then have step: "heap_down lt h i n = heap_down lt (heap_Swap i ?j h) ?j n"
      by (simp add: heap_down.simps [of lt h i n] Let_def)
    from False have j: "?j < n" "\<not> n \<le> 2 * i + 1" "\<not> \<not> lt (h ! ?j) (h ! i)"
      by (auto intro: min_child_less)
    then have "?j < length (heap_Swap i ?j h)" "n \<le> length (heap_Swap i ?j h)"
      using "1.prems" by simp_all
    from "1.IH" [OF j(2) refl j(3) this(2,1)] j "1.prems"
    show ?thesis unfolding step by (auto simp: nth_heap_Swap)
  qed
qed

lemma heap_Push_mset: "mset (heap_Push lt x h) = add_mset x (mset h)"
  using heap_up_perm [of "length h" "h @ [x]" lt] by (simp add: heap_Push_def Let_def)

lemma heap_Pop_None_iff: "heap_Pop lt h = None \<longleftrightarrow> h = []"
  by (simp add: heap_Pop_def Let_def)

lemma length_heap_down [simp]:
  "n \<le> length h \<Longrightarrow> i < length h \<Longrightarrow> length (heap_down lt h i n) = length h"
  by (simp add: heap_down_perm)

section \<open>The heap property\<close>

definition parent :: "nat \<Rightarrow> nat" where
  "parent j = (j - 1) div 2"

lemma parent_less: "0 < j \<Longrightarrow> parent j < j"
  by (simp add: parent_def)

lemma parent_less_trans [simp]: "0 < j \<Longrightarrow> j < n \<Longrightarrow> parent j < n"
  using parent_less [of j] by linarith

lemma parent_neq [simp]: "0 < j \<Longrightarrow> parent j \<noteq> j" "0 < j \<Longrightarrow> j \<noteq> parent j"
  using parent_less [of j] by linarith+

lemma parent_min_child [simp]: "parent (min_child lt h i n) = i"
  by (simp add: min_child_def parent_def Let_def)

lemma parent_child: "0 < j \<Longrightarrow> parent j = i \<longleftrightarrow> j = 2 * i + 1 \<or> j = 2 * i + 2"
  by (auto simp: parent_def)

definition heap_from :: "('a \<Rightarrow> 'a \<Rightarrow> bool) \<Rightarrow> 'a list \<Rightarrow> nat \<Rightarrow> nat \<Rightarrow> bool" where
  "heap_from lt h m n \<longleftrightarrow>
     (\<forall>j. 0 < j \<and> j < n \<and> m \<le> parent j \<longrightarrow> \<not> lt (h ! j) (h ! parent j))"

abbreviation is_heap :: "('a \<Rightarrow> 'a \<Rightarrow> bool) \<Rightarrow> 'a list \<Rightarrow> bool" where
  "is_heap lt h \<equiv> heap_from lt h 0 (length h)"

text \<open>The heap property except that the element at \<open>i\<close> may be too large (for \<^verbatim>\<open>down\<close>)
  or too small (for \<^verbatim>\<open>up\<close>).\<close>

definition down_inv :: "('a \<Rightarrow> 'a \<Rightarrow> bool) \<Rightarrow> 'a list \<Rightarrow> nat \<Rightarrow> nat \<Rightarrow> nat \<Rightarrow> bool" where
  "down_inv lt h m n i \<longleftrightarrow>
     (\<forall>j. 0 < j \<and> j < n \<and> m \<le> parent j \<and> parent j \<noteq> i \<longrightarrow> \<not> lt (h ! j) (h ! parent j)) \<and>
     (\<forall>j. 0 < j \<and> j < n \<and> parent j = i \<and> 0 < i \<and> m \<le> parent i \<longrightarrow> \<not> lt (h ! j) (h ! parent i))"

definition up_inv :: "('a \<Rightarrow> 'a \<Rightarrow> bool) \<Rightarrow> 'a list \<Rightarrow> nat \<Rightarrow> bool" where
  "up_inv lt h i \<longleftrightarrow>
     (\<forall>k. 0 < k \<and> k < length h \<and> k \<noteq> i \<longrightarrow> \<not> lt (h ! k) (h ! parent k)) \<and>
     (\<forall>k. 0 < k \<and> k < length h \<and> parent k = i \<and> 0 < i \<longrightarrow> \<not> lt (h ! k) (h ! parent i))"

lemma down_inv_front:
  assumes "heap_from lt h (Suc m) n"
  shows "down_inv lt h m n m"
proof -
  have "\<not> m \<le> parent m" if "0 < m" using parent_less that by (simp add: not_le)
  with assms show ?thesis by (auto simp: down_inv_def heap_from_def)
qed

section \<open>The contract of a priority queue\<close>

locale priority_queue =
  fixes insert :: "'e \<Rightarrow> 'q \<Rightarrow> 'q"
    and pop :: "'q \<Rightarrow> ('e \<times> 'q) option"
    and before :: "'e \<Rightarrow> 'e \<Rightarrow> bool"
    and contents :: "'q \<Rightarrow> 'e multiset"
    and invar :: "'q \<Rightarrow> bool"
  assumes insert_invar: "invar q \<Longrightarrow> invar (insert e q)"
    and insert_contents: "contents (insert e q) = add_mset e (contents q)"
    and pop_None: "pop q = None \<longleftrightarrow> contents q = {#}"
    and pop_invar: "invar q \<Longrightarrow> pop q = Some (e, q') \<Longrightarrow> invar q'"
    and pop_contents: "invar q \<Longrightarrow> pop q = Some (e, q') \<Longrightarrow> contents q = add_mset e (contents q')"
    and pop_least: "invar q \<Longrightarrow> pop q = Some (e, q') \<Longrightarrow> x \<in># contents q \<Longrightarrow> \<not> before x e"
begin

text \<open>Popping until empty sorts the contents.\<close>

fun pop_all :: "nat \<Rightarrow> 'q \<Rightarrow> 'e list" where
  "pop_all 0 q = []"
| "pop_all (Suc n) q = (case pop q of None \<Rightarrow> [] | Some (e, q') \<Rightarrow> e # pop_all n q')"

lemma pop_all_sorts:
  "invar q \<Longrightarrow> size (contents q) = n \<Longrightarrow>
   mset (pop_all n q) = contents q \<and> sorted_wrt (\<lambda>a b. \<not> before b a) (pop_all n q)"
proof (induction n arbitrary: q)
  case (Suc n)
  then obtain e q' where p: "pop q = Some (e, q')"
    using pop_None [of q] by (cases "pop q") auto
  then have q': "invar q'" "contents q = add_mset e (contents q')"
    using Suc.prems pop_invar pop_contents by blast+
  then have "mset (pop_all n q') = contents q' \<and> sorted_wrt (\<lambda>a b. \<not> before b a) (pop_all n q')"
    using Suc.IH [of q'] Suc.prems by simp
  moreover have "\<not> before b e" if "b \<in> set (pop_all n q')" for b
  proof -
    have "b \<in># contents q" using that calculation q'(2) by (metis set_mset_mset union_iff add_mset_add_single)
    then show ?thesis using pop_least [OF Suc.prems(1) p] by blast
  qed
  ultimately show ?case by (simp add: p q'(2))
qed simp

end

section \<open>A heap is a priority queue\<close>

locale heap_order =
  fixes lt :: "'a \<Rightarrow> 'a \<Rightarrow> bool"
  assumes asym: "lt a b \<Longrightarrow> \<not> lt b a"
    and neg_trans: "\<not> lt a b \<Longrightarrow> \<not> lt b c \<Longrightarrow> \<not> lt a c"
begin

lemma down_inv_step:
  assumes inv: "down_inv lt h m n i" and n: "n \<le> length h"
    and c: "0 < c" "c < n" "parent c = i" "lt (h ! c) (h ! i)" and m: "m \<le> i"
    and least: "\<And>j. 0 < j \<Longrightarrow> j < n \<Longrightarrow> parent j = i \<Longrightarrow> \<not> lt (h ! j) (h ! c)"
  shows "down_inv lt (heap_Swap i c h) m n c"
proof -
  have ic: "i < c" using c parent_less [of c] by auto
  have nth: "heap_Swap i c h ! k = (if k = c then h ! i else if k = i then h ! c else h ! k)"
    if "k < n" for k using that n c ic by (intro nth_heap_Swap) auto
  have old: "\<not> lt (h ! j) (h ! parent j)"
    if "0 < j" "j < n" "m \<le> parent j" "parent j \<noteq> i" for j
    using inv that by (auto simp: down_inv_def)
  have top: "\<not> lt (h ! c) (h ! parent i)" if "0 < i" "m \<le> parent i"
    using inv that c by (auto simp: down_inv_def)
  have "\<not> lt (heap_Swap i c h ! j) (heap_Swap i c h ! parent j)"
    if j: "0 < j" "j < n" "m \<le> parent j" "parent j \<noteq> c" for j
  proof (cases "parent j = i")
    case True
    then show ?thesis using j c ic least [of j] asym [of "h ! c" "h ! i"] by (auto simp: nth)
  next
    case False
    moreover have "parent j < n" using j(1,2) parent_less [of j] by linarith
    moreover have "j \<noteq> c" using False c by blast
    ultimately show ?thesis
      using j old [of j] top by (auto simp: nth)
  qed
  moreover have "\<not> lt (heap_Swap i c h ! j) (heap_Swap i c h ! parent c)"
    if j: "0 < j" "j < n" "parent j = c" for j
  proof -
    have "j \<noteq> c" "j \<noteq> i" using j ic parent_less [of j] by auto
    then show ?thesis using j c ic m old [of j] by (auto simp: nth)
  qed
  ultimately show ?thesis by (auto simp: down_inv_def)
qed

lemma heap_down_heap:
  "down_inv lt h m n i \<Longrightarrow> n \<le> length h \<Longrightarrow> m \<le> i \<Longrightarrow> heap_from lt (heap_down lt h i n) m n"
proof (induction "n - i" arbitrary: h i rule: less_induct)
  case less
  let ?j = "min_child lt h i n"
  have least: "\<not> lt (h ! k) (h ! ?j)" if "0 < k" "k < n" "parent k = i" for k
    using that asym [of "h ! (2 * i + 2)" "h ! (2 * i + 1)"] asym [of "h ! k" "h ! k"]
    by (auto simp: parent_child min_child_def Let_def)
  show ?case
  proof (cases "2 * i + 1 \<ge> n \<or> \<not> lt (h ! ?j) (h ! i)")
    case True
    then have "heap_down lt h i n = h" by (auto simp: heap_down.simps [of lt h i n] Let_def)
    moreover have "\<not> lt (h ! k) (h ! i)" if "0 < k" "k < n" "parent k = i" for k
    proof -
      have "2 * i + 1 < n" using that by (auto simp: parent_child)
      with True show ?thesis using least [OF that] neg_trans by auto
    qed
    ultimately show ?thesis using less.prems(1) by (auto simp: heap_from_def down_inv_def)
  next
    case False
    then have step: "heap_down lt h i n = heap_down lt (heap_Swap i ?j h) ?j n"
      by (simp add: heap_down.simps [of lt h i n] Let_def)
    have j: "0 < ?j" "?j < n" "parent ?j = i" "lt (h ! ?j) (h ! i)"
      using False min_child_greater [of i lt h n] min_child_less [of i n lt h] by auto
    have "down_inv lt (heap_Swap i ?j h) m n ?j"
      by (rule down_inv_step) (use less.prems j least in auto)
    moreover have "n - ?j < n - i" "m \<le> ?j"
      using j(2) less.prems(3) min_child_greater [of i lt h n] by linarith+
    ultimately show ?thesis
      unfolding step by (intro less.hyps) (use less.prems(2) in auto)
  qed
qed

lemma up_inv_step:
  assumes inv: "up_inv lt h j" and j: "0 < j" "j < length h" "lt (h ! j) (h ! parent j)"
  shows "up_inv lt (heap_Swap (parent j) j h) (parent j)"
proof -
  let ?p = "parent j"
  let ?h = "heap_Swap ?p j h"
  have pj: "?p < j" using j by (simp add: parent_less)
  have nth: "?h ! k = (if k = j then h ! ?p else if k = ?p then h ! j else h ! k)"
    if "k < length h" for k using that pj j by (intro nth_heap_Swap) auto
  have old: "\<not> lt (h ! k) (h ! parent k)" if "0 < k" "k < length h" "k \<noteq> j" for k
    using inv that by (auto simp: up_inv_def)
  have below: "\<not> lt (h ! k) (h ! ?p)" if "0 < k" "k < length h" "parent k = j" for k
    using inv that j by (auto simp: up_inv_def)
  have swap: "\<not> lt (h ! ?p) (h ! j)" using j asym by blast
  have "\<not> lt (?h ! k) (?h ! parent k)" if k: "0 < k" "k < length h" "k \<noteq> ?p" for k
  proof -
    have pk: "parent k < k" "parent k < length h" using k parent_less [of k] by linarith+
    consider "k = j" | "k \<noteq> j" "parent k = ?p" | "k \<noteq> j" "parent k = j" | "k \<noteq> j" "parent k \<noteq> ?p" "parent k \<noteq> j"
      by blast
    then show ?thesis
    proof cases
      case 2
      then have "\<not> lt (h ! k) (h ! j)" using old [of k] k swap neg_trans by metis
      with 2 k pk pj show ?thesis by (simp add: nth)
    qed (use k pk pj swap old below in \<open>auto simp: nth\<close>)
  qed
  moreover have "\<not> lt (?h ! k) (?h ! parent ?p)" if k: "0 < k" "k < length h" "parent k = ?p" "0 < ?p" for k
  proof -
    have pp: "parent ?p < ?p" "parent ?p < length h" using k(4) pj j(2) parent_less [of ?p] by linarith+
    have top: "\<not> lt (h ! ?p) (h ! parent ?p)" using old [of ?p] k(4) pj j by simp
    have "k \<noteq> ?p" using k by (metis less_irrefl parent_less)
    moreover have "\<not> lt (h ! k) (h ! parent ?p)" if "k \<noteq> j"
      using old [of k] k that top neg_trans by metis
    ultimately show ?thesis using k pp pj j top by (auto simp: nth)
  qed
  ultimately show ?thesis by (auto simp: up_inv_def)
qed

lemma heap_up_heap:
  "up_inv lt h j \<Longrightarrow> j < length h \<Longrightarrow> is_heap lt (heap_up lt h j)"
proof (induction j arbitrary: h rule: less_induct)
  case (less j)
  have eq: "heap_up lt h j =
      (if parent j = j \<or> \<not> lt (h ! j) (h ! parent j) then h else heap_up lt (heap_Swap (parent j) j h) (parent j))"
    by (simp add: heap_up.simps [of lt h j] Let_def parent_def)
  show ?case
  proof (cases "parent j = j \<or> \<not> lt (h ! j) (h ! parent j)")
    case True
    then have "j = 0 \<or> \<not> lt (h ! j) (h ! parent j)" using parent_less [of j] by fastforce
    then show ?thesis using True less.prems by (auto simp: eq heap_from_def up_inv_def)
  next
    case False
    then have j: "0 < j" "lt (h ! j) (h ! parent j)" by (auto simp: parent_def)
    then have "parent j < j" by (simp add: parent_less)
    moreover have "up_inv lt (heap_Swap (parent j) j h) (parent j)"
      using up_inv_step less.prems j by blast
    ultimately show ?thesis using False less.prems less.IH [of "parent j"] by (simp add: eq)
  qed
qed

lemma heap_root_least: "is_heap lt h \<Longrightarrow> k < length h \<Longrightarrow> \<not> lt (h ! k) (h ! 0)"
proof (induction k rule: less_induct)
  case (less k)
  show ?case
  proof (cases "k = 0")
    case True
    then show ?thesis using asym by blast
  next
    case False
    then have k: "parent k < k" "0 < k" by (auto simp: parent_less)
    then have "\<not> lt (h ! parent k) (h ! 0)" using less by (meson less_trans)
    moreover have "\<not> lt (h ! k) (h ! parent k)" using less.prems k by (auto simp: heap_from_def)
    ultimately show ?thesis using neg_trans by blast
  qed
qed

lemma heap_Push_heap: "is_heap lt h \<Longrightarrow> is_heap lt (heap_Push lt x h)"
proof -
  assume h: "is_heap lt h"
  have "up_inv lt (h @ [x]) (length h)"
  proof -
    have "\<not> lt ((h @ [x]) ! k) ((h @ [x]) ! parent k)" if "0 < k" "k < length h" for k
      using h that parent_less [of k] by (auto simp: heap_from_def nth_append)
    moreover have "parent k \<noteq> length h" if "0 < k" "k < Suc (length h)" for k
      using parent_less [of k] that by linarith
    ultimately show ?thesis by (auto simp: up_inv_def less_Suc_eq)
  qed
  then show ?thesis by (simp add: heap_Push_def Let_def heap_up_heap)
qed

lemma heap_Init_partial:
  assumes "m \<le> length h div 2"
  shows "let h' = fold (\<lambda>i h. heap_down lt h i (length h)) (rev [m..<length h div 2]) h
         in heap_from lt h' m (length h') \<and> mset h' = mset h"
  using assms
proof (induction "length h div 2 - m" arbitrary: m)
  case 0
  then have "m = length h div 2" by simp
  then show ?case by (auto simp: heap_from_def parent_def)
next
  case (Suc d)
  let ?n = "length h"
  let ?h1 = "fold (\<lambda>i h. heap_down lt h i (length h)) (rev [Suc m..<?n div 2]) h"
  have "d = ?n div 2 - Suc m" "Suc m \<le> ?n div 2" using Suc by auto
  from Suc.hyps(1) [OF this] have h1: "heap_from lt ?h1 (Suc m) (length ?h1)" "mset ?h1 = mset h"
    by (simp_all add: Let_def)
  then have len: "length ?h1 = ?n" by (metis size_mset)
  have "rev [m..<?n div 2] = rev [Suc m..<?n div 2] @ [m]"
    using Suc by (simp add: upt_conv_Cons)
  moreover have "down_inv lt ?h1 m ?n m"
    using h1(1) len by (simp add: down_inv_front)
  moreover have "m < ?n" using Suc by linarith
  ultimately show ?case
    using h1 len heap_down_heap [of ?h1 m ?n m] heap_down_perm [of ?n ?h1 m lt]
    by (simp add: Let_def)
qed

lemma heap_Init_heap: "is_heap lt (heap_Init lt h)"
  using heap_Init_partial [of 0 h] by (simp add: heap_Init_def Let_def)

lemma heap_Init_mset: "mset (heap_Init lt h) = mset h"
  using heap_Init_partial [of 0 h] by (simp add: heap_Init_def Let_def)

lemma heap_Pop_correct:
  assumes h: "is_heap lt h" and pop: "heap_Pop lt h = Some (x, h')"
  shows "is_heap lt h'" and "mset h = add_mset x (mset h')" and "x = h ! 0"
    and "y \<in> set h \<Longrightarrow> \<not> lt y x"
proof -
  define n where "n = length h - 1"
  define h2 where "h2 = heap_down lt (heap_Swap 0 n h) 0 n"
  have ne: "h \<noteq> []" and x: "x = h2 ! n" and h': "h' = take n h2"
    using pop by (auto simp: heap_Pop_def n_def h2_def Let_def split: if_splits)
  then have len: "length h = Suc n" by (simp add: n_def)
  then have perm: "length h2 = length h" "mset h2 = mset h"
    using heap_down_perm [of n "heap_Swap 0 n h" 0 lt] ne by (auto simp: h2_def)
  have n2: "h2 ! n = heap_Swap 0 n h ! n"
  proof (cases "n = 0")
    case True
    then show ?thesis by (simp add: h2_def heap_down.simps [of lt _ 0 0])
  next
    case False
    then show ?thesis using heap_down_perm [of n "heap_Swap 0 n h" 0 lt] len by (auto simp: h2_def)
  qed
  then show root: "x = h ! 0" using x len by (simp add: nth_heap_Swap)
  have "h2 = h' @ [x]"
    unfolding h' x using take_Suc_conv_app_nth [of n h2] perm(1) len by simp
  then show "mset h = add_mset x (mset h')" using perm(2) by (metis mset_append mset.simps add_mset_add_single)
  have "down_inv lt (heap_Swap 0 n h) 0 n 0"
  proof -
    have "\<not> lt (heap_Swap 0 n h ! j) (heap_Swap 0 n h ! parent j)" if "0 < j" "j < n" "parent j \<noteq> 0" for j
      using h that len parent_less [of j] by (auto simp: nth_heap_Swap heap_from_def)
    then show ?thesis by (auto simp: down_inv_def)
  qed
  then have "heap_from lt h2 0 n" unfolding h2_def by (rule heap_down_heap) (use len in auto)
  then show "is_heap lt h'"
    using perm(1) len by (auto simp: h' heap_from_def)
  show "\<not> lt y x" if "y \<in> set h" for y
    using heap_root_least [OF h] that root by (auto simp: in_set_conv_nth)
qed

end

sublocale heap_order \<subseteq> heap_queue: priority_queue "heap_Push lt" "heap_Pop lt" lt mset "is_heap lt"
  by unfold_locales
    (auto simp: heap_Push_heap heap_Push_mset heap_Pop_None_iff dest: heap_Pop_correct)

end
