(* ===== verification/Retry_Queue.thy ===== *)
theory Retry_Queue
  imports Client Go_Heap "HOL-Library.Product_Lexorder"
begin

text \<open>
  The retry queue of \<^verbatim>\<open>queue.go\<close>: \<^verbatim>\<open>retryHeap\<close> with \<^verbatim>\<open>Less\<close> on due time and
  scheduling order, and \<^verbatim>\<open>schedule\<close>, \<^verbatim>\<open>popDue\<close>, \<^verbatim>\<open>remove\<close>, \<^verbatim>\<open>close\<close>,
  \<^verbatim>\<open>len\<close> and \<^verbatim>\<open>clear\<close> of \<^verbatim>\<open>retryQueue\<close>. The ordering interprets \<open>heap_order\<close>, so
  the queue is a priority queue by due time; on top of that the lemmas give the capacity bound,
  what an overflowing \<^verbatim>\<open>schedule\<close> hands back, and when \<^verbatim>\<open>popDue\<close> returns what.
\<close>

section \<open>The operations\<close>

definition retryHeap_Less :: "client_event \<Rightarrow> client_event \<Rightarrow> bool" where
  "retryHeap_Less a b =
     (if ce_retryAfter a = ce_retryAfter b then ce_retryOrder a < ce_retryOrder b
      else ce_retryAfter a < ce_retryAfter b)"

record retry_queue =
  rq_items :: "client_event list"
  rq_capacity :: int
  rq_sequence :: nat
  rq_changed :: bool
  rq_closed :: bool

definition newRetryQueue :: "int \<Rightarrow> retry_queue" where
  "newRetryQueue capacity =
     \<lparr>rq_items = [], rq_capacity = capacity, rq_sequence = 0, rq_changed = False, rq_closed = False\<rparr>"

definition retryQueue_schedule ::
  "client_event \<Rightarrow> retry_queue \<Rightarrow> (client_event option \<times> err option) \<times> retry_queue" where
  "retryQueue_schedule event q =
     (if rq_closed q then ((None, Some ErrClosed), q)
      else let seq = wrap_uint64 (rq_sequence q + 1);
               event1 = event\<lparr>ce_retryOrder := seq\<rparr>;
               q1 = q\<lparr>rq_sequence := seq, rq_items := heap_Push retryHeap_Less event1 (rq_items q), rq_changed := True\<rparr>
           in if int (length (rq_items q1)) > rq_capacity q1
              then (case heap_Pop retryHeap_Less (rq_items q1) of
                      Some (x, items) \<Rightarrow> ((Some x, None), q1\<lparr>rq_items := items\<rparr>)
                    | None \<Rightarrow> ((None, None), q1))
              else ((None, None), q1))"

text \<open>The due event, the next due time (\<^const>\<open>None\<close> is the zero time) and whether the queue is open.\<close>

definition retryQueue_popDue ::
  "instant \<Rightarrow> retry_queue \<Rightarrow> (client_event option \<times> instant option \<times> bool) \<times> retry_queue" where
  "retryQueue_popDue now q =
     (if rq_closed q then ((None, None, False), q)
      else if length (rq_items q) = 0 then ((None, None, True), q)
      else let next_item = rq_items q ! 0
           in if now < ce_retryAfter next_item then ((None, Some (ce_retryAfter next_item), True), q)
              else (case heap_Pop retryHeap_Less (rq_items q) of
                      Some (x, items) \<Rightarrow> ((Some x, None, True), q\<lparr>rq_items := items\<rparr>)
                    | None \<Rightarrow> ((None, None, True), q)))"

definition retryQueue_remove :: "(client_event \<Rightarrow> bool) \<Rightarrow> retry_queue \<Rightarrow> retry_queue" where
  "retryQueue_remove match q =
     (let kept = kept_prefix (\<lambda>e. \<not> match e) (rq_items q) 0
      in q\<lparr>rq_items := heap_Init retryHeap_Less kept, rq_changed := True\<rparr>)"

definition retryQueue_close :: "retry_queue \<Rightarrow> retry_queue" where
  "retryQueue_close q = q\<lparr>rq_closed := True\<rparr>"

definition retryQueue_len :: "retry_queue \<Rightarrow> int" where
  "retryQueue_len q = int (length (rq_items q))"

definition retryQueue_clear :: "retry_queue \<Rightarrow> retry_queue" where
  "retryQueue_clear q = q\<lparr>rq_items := []\<rparr>"

section \<open>Due times order the heap\<close>

interpretation retry_heap: heap_order retryHeap_Less
  by unfold_locales (auto simp: retryHeap_Less_def split: if_splits)

definition retry_queue_ok :: "retry_queue \<Rightarrow> bool" where
  "retry_queue_ok q \<longleftrightarrow> is_heap retryHeap_Less (rq_items q) \<and> int (length (rq_items q)) \<le> rq_capacity q"

lemma retry_queue_ok_new [simp]: "0 \<le> capacity \<Longrightarrow> retry_queue_ok (newRetryQueue capacity)"
  by (simp add: retry_queue_ok_def newRetryQueue_def heap_from_def)

lemma Less_due: "\<not> retryHeap_Less y x \<Longrightarrow> ce_retryAfter x \<le> ce_retryAfter y"
  by (auto simp: retryHeap_Less_def split: if_splits)

lemma Less_order:
  "\<not> retryHeap_Less y x \<Longrightarrow> ce_retryAfter x = ce_retryAfter y \<Longrightarrow> ce_retryOrder x \<le> ce_retryOrder y"
  by (auto simp: retryHeap_Less_def split: if_splits)

lemma Less_lex:
  "\<not> retryHeap_Less y x \<longleftrightarrow> (ce_retryAfter x, ce_retryOrder x) \<le> (ce_retryAfter y, ce_retryOrder y)"
  by (auto simp: retryHeap_Less_def)

lemma length_Push [simp]: "length (heap_Push lt x h) = Suc (length h)"
  by (metis heap_Push_mset size_add_mset size_mset)

text \<open>Every outcome of \<^verbatim>\<open>schedule\<close> on an open queue.\<close>

lemma schedule_room:
  assumes "retry_queue_ok q" "\<not> rq_closed q" "int (length (rq_items q)) < rq_capacity q"
    and "retryQueue_schedule e q = (r, q')"
  shows "r = (None, None)" and "retry_queue_ok q'"
    and "mset (rq_items q') = add_mset (e\<lparr>ce_retryOrder := wrap_uint64 (rq_sequence q + 1)\<rparr>) (mset (rq_items q))"
  using assms retry_heap.heap_queue.insert_invar
  by (auto simp: retryQueue_schedule_def Let_def retry_queue_ok_def heap_Push_mset split: if_splits)

lemma schedule_full:
  assumes ok: "retry_queue_ok q" and open_q: "\<not> rq_closed q" and full: "int (length (rq_items q)) = rq_capacity q"
    and sched: "retryQueue_schedule e q = (r, q')"
  defines "e1 \<equiv> e\<lparr>ce_retryOrder := wrap_uint64 (rq_sequence q + 1)\<rparr>"
  obtains x where "r = (Some x, None)" and "retry_queue_ok q'"
    and "add_mset e1 (mset (rq_items q)) = add_mset x (mset (rq_items q'))"
    and "\<forall>y \<in># add_mset e1 (mset (rq_items q)). \<not> retryHeap_Less y x"
proof -
  let ?h = "heap_Push retryHeap_Less e1 (rq_items q)"
  have h: "is_heap retryHeap_Less ?h" using ok retry_heap.heap_queue.insert_invar by (simp add: retry_queue_ok_def)
  have "?h \<noteq> []" by (metis length_Push list.size(3) nat.distinct(1))
  then obtain x items where pop: "heap_Pop retryHeap_Less ?h = Some (x, items)"
    by (metis heap_Pop_None_iff not_None_eq surj_pair)
  note correct = retry_heap.heap_Pop_correct [OF h pop]
  have mset: "mset ?h = add_mset e1 (mset (rq_items q))" by (rule heap_Push_mset)
  have q': "r = (Some x, None)" "rq_items q' = items" "rq_capacity q' = rq_capacity q"
    using sched open_q full pop by (auto simp: retryQueue_schedule_def Let_def e1_def)
  have "length items = length (rq_items q)"
    using arg_cong [OF correct(2), of size] mset by (metis size_add_mset size_mset nat.inject)
  then have "retry_queue_ok q'" using correct(1) q' full by (simp add: retry_queue_ok_def)
  moreover have "\<forall>y \<in># add_mset e1 (mset (rq_items q)). \<not> retryHeap_Less y x"
    using correct(4) mset by (metis set_mset_mset)
  moreover have "add_mset e1 (mset (rq_items q)) = add_mset x (mset (rq_items q'))"
    using correct(2) mset q'(2) by simp
  ultimately show ?thesis by (intro that [OF q'(1)])
qed

text \<open>Every outcome of \<^verbatim>\<open>popDue\<close> on an open queue.\<close>

lemma root_first:
  "retry_queue_ok q \<Longrightarrow> y \<in> set (rq_items q) \<Longrightarrow> ce_retryAfter (rq_items q ! 0) \<le> ce_retryAfter y"
  using retry_heap.heap_root_least [of "rq_items q"]
  by (metis Less_due in_set_conv_nth retry_queue_ok_def)

lemma popDue_waits:
  assumes "retry_queue_ok q" "\<not> rq_closed q" "\<forall>y \<in> set (rq_items q). now < ce_retryAfter y"
  shows "retryQueue_popDue now q =
    ((None, if rq_items q = [] then None else Some (Min (ce_retryAfter ` set (rq_items q))), True), q)"
proof (cases "rq_items q = []")
  case False
  then have mem: "rq_items q ! 0 \<in> set (rq_items q)" by simp
  have "Min (ce_retryAfter ` set (rq_items q)) = ce_retryAfter (rq_items q ! 0)"
    using root_first [OF assms(1)] mem by (intro Min_eqI) auto
  then show ?thesis using assms False mem by (simp add: retryQueue_popDue_def Let_def)
qed (use assms in \<open>simp add: retryQueue_popDue_def\<close>)

lemma popDue_due:
  assumes ok: "retry_queue_ok q" and open_q: "\<not> rq_closed q"
    and due: "y \<in> set (rq_items q)" "ce_retryAfter y \<le> now"
  obtains x q' where "retryQueue_popDue now q = ((Some x, None, True), q')" and "retry_queue_ok q'"
    and "mset (rq_items q) = add_mset x (mset (rq_items q'))" and "ce_retryAfter x \<le> now"
    and "\<forall>z \<in> set (rq_items q). \<not> retryHeap_Less z x"
proof -
  have h: "is_heap retryHeap_Less (rq_items q)" using ok by (simp add: retry_queue_ok_def)
  have ne: "rq_items q \<noteq> []" using due by auto
  then obtain x items where pop: "heap_Pop retryHeap_Less (rq_items q) = Some (x, items)"
    by (metis heap_Pop_None_iff not_None_eq surj_pair)
  note correct = retry_heap.heap_Pop_correct [OF h pop]
  have root: "ce_retryAfter (rq_items q ! 0) \<le> now" using root_first [OF ok due(1)] due(2) by simp
  have "length (rq_items q) = Suc (length items)" using correct(2) by (metis size_add_mset size_mset)
  then have "retry_queue_ok (q\<lparr>rq_items := items\<rparr>)" using correct(1) ok by (simp add: retry_queue_ok_def)
  moreover have "retryQueue_popDue now q = ((Some x, None, True), q\<lparr>rq_items := items\<rparr>)"
    using open_q ne root pop by (simp add: retryQueue_popDue_def Let_def)
  ultimately show ?thesis using that correct root by simp
qed

lemma retryQueue_remove_spec:
  assumes "retry_queue_ok q"
  shows "retry_queue_ok (retryQueue_remove match q)"
    and "mset (rq_items (retryQueue_remove match q)) = filter_mset (\<lambda>e. \<not> match e) (mset (rq_items q))"
proof -
  let ?kept = "filter (\<lambda>e. \<not> match e) (rq_items q)"
  have items: "rq_items (retryQueue_remove match q) = heap_Init retryHeap_Less ?kept"
    "rq_capacity (retryQueue_remove match q) = rq_capacity q"
    by (simp_all add: retryQueue_remove_def Let_def kept_prefix_filter)
  have "length (heap_Init retryHeap_Less ?kept) = length ?kept"
    using retry_heap.heap_Init_mset by (metis size_mset)
  moreover have "length ?kept \<le> length (rq_items q)" by (rule length_filter_le)
  moreover have "int (length (rq_items q)) \<le> rq_capacity q" using assms by (simp add: retry_queue_ok_def)
  ultimately show "retry_queue_ok (retryQueue_remove match q)"
    using retry_heap.heap_Init_heap [of ?kept] by (simp add: retry_queue_ok_def items del: length_filter_le)
  show "mset (rq_items (retryQueue_remove match q)) = filter_mset (\<lambda>e. \<not> match e) (mset (rq_items q))"
    by (simp add: items retry_heap.heap_Init_mset)
qed

lemma set_retryQueue_remove:
  "retry_queue_ok q \<Longrightarrow> set (rq_items (retryQueue_remove match q)) = {e \<in> set (rq_items q). \<not> match e}"
  using retryQueue_remove_spec(2) [of q match] by (metis set_mset_filter set_mset_mset)

lemma retry_queue_fields [simp]:
  "rq_capacity (retryQueue_remove m q) = rq_capacity q" "rq_closed (retryQueue_remove m q) = rq_closed q"
  "rq_items (retryQueue_close q) = rq_items q" "rq_closed (retryQueue_close q)" "rq_capacity (retryQueue_close q) = rq_capacity q"
  "retry_queue_ok (retryQueue_close q) = retry_queue_ok q"
  "rq_items (retryQueue_clear q) = []" "rq_closed (retryQueue_clear q) = rq_closed q"
  by (simp_all add: retryQueue_remove_def retryQueue_close_def retryQueue_clear_def retry_queue_ok_def Let_def)

section \<open>The queue as a bounded priority queue\<close>

text \<open>C29. \<^verbatim>\<open>popDue\<close> on an open retry queue returns an event exactly when one is due. The
  event it returns is due, none of the waiting events comes before it (in due time, and in
  scheduling order at equal due times), and all others stay; otherwise it returns the earliest due time, and
  nothing changes. A closed queue reports that it is closed.\<close>

theorem popDue_earliest:
  assumes ok: "retry_queue_ok q"
  shows "(rq_closed q \<longrightarrow> retryQueue_popDue now q = ((None, None, False), q)) \<and>
    (\<not> rq_closed q \<and> (\<forall>y \<in> set (rq_items q). now < ce_retryAfter y) \<longrightarrow>
       retryQueue_popDue now q =
         ((None, if rq_items q = [] then None else Some (Min (ce_retryAfter ` set (rq_items q))), True), q)) \<and>
    (\<not> rq_closed q \<and> (\<exists>y \<in> set (rq_items q). ce_retryAfter y \<le> now) \<longrightarrow>
       (\<exists>x q'. retryQueue_popDue now q = ((Some x, None, True), q') \<and> retry_queue_ok q' \<and>
          ce_retryAfter x \<le> now \<and> mset (rq_items q) = add_mset x (mset (rq_items q')) \<and>
          (\<forall>z \<in> set (rq_items q). (ce_retryAfter x, ce_retryOrder x) \<le> (ce_retryAfter z, ce_retryOrder z))))"
proof -
  have "\<exists>x q'. retryQueue_popDue now q = ((Some x, None, True), q') \<and> retry_queue_ok q' \<and>
          ce_retryAfter x \<le> now \<and> mset (rq_items q) = add_mset x (mset (rq_items q')) \<and>
          (\<forall>z \<in> set (rq_items q). (ce_retryAfter x, ce_retryOrder x) \<le> (ce_retryAfter z, ce_retryOrder z))"
    if open_q: "\<not> rq_closed q" and due: "y \<in> set (rq_items q)" "ce_retryAfter y \<le> now" for y
  proof -
    obtain x q' where x: "retryQueue_popDue now q = ((Some x, None, True), q')" "retry_queue_ok q'"
        "mset (rq_items q) = add_mset x (mset (rq_items q'))" "ce_retryAfter x \<le> now"
        "\<forall>z \<in> set (rq_items q). \<not> retryHeap_Less z x"
      by (rule popDue_due [OF ok open_q due])
    then show ?thesis by (auto simp: Less_lex)
  qed
  then show ?thesis using popDue_waits [OF ok] by (auto simp: retryQueue_popDue_def)
qed

definition demo_waiting :: "instant \<Rightarrow> client_event" where
  "demo_waiting t =
     \<lparr>ce_ClientID = ''a'', ce_Event = NewNamedEvent ''news'', ce_Message = \<lparr>msg_Event = ''news'', msg_Data = [],
        msg_HasData = False, msg_Retry = 0, msg_ID = [], msg_Comment = []\<rparr>,
      ce_client = 0, ce_attempts = 1, ce_retryAfter = t, ce_retryOrder = 0, ce_generation = 0, ce_sendOrder = 1\<rparr>"

definition demo_retries :: retry_queue where
  "demo_retries = (newRetryQueue 2)\<lparr>rq_items := [demo_waiting 5, demo_waiting 9]\<rparr>"

lemma demo_retries_ok: "retry_queue_ok demo_retries"
  by (auto simp: retry_queue_ok_def demo_retries_def newRetryQueue_def demo_waiting_def retryHeap_Less_def heap_from_def
      parent_def less_Suc_eq numeral_2_eq_2)

theorem popDue_earliest_witness:
  "retryQueue_popDue 3 demo_retries = ((None, Some 5, True), demo_retries) \<and>
   (\<exists>x q'. retryQueue_popDue 7 demo_retries = ((Some x, None, True), q') \<and> ce_retryAfter x \<le> 7)"
proof
  show "retryQueue_popDue 3 demo_retries = ((None, Some 5, True), demo_retries)"
    using popDue_earliest [OF demo_retries_ok, of 3] by (simp add: demo_retries_def newRetryQueue_def demo_waiting_def)
  show "\<exists>x q'. retryQueue_popDue 7 demo_retries = ((Some x, None, True), q') \<and> ce_retryAfter x \<le> 7"
    using popDue_earliest [OF demo_retries_ok, of 7] by (auto simp: demo_retries_def newRetryQueue_def demo_waiting_def)
qed

text \<open>C30. \<^verbatim>\<open>schedule\<close> never lets the queue exceed its capacity and never loses an event
  silently: below capacity the event is added under the next scheduling order; at capacity the
  earliest of all events, the new one included, is handed back to the caller and the rest is kept; a closed queue
  refuses with \<^verbatim>\<open>ErrClosed\<close> and is not changed.\<close>

theorem schedule_overflow_hands_back:
  assumes ok: "retry_queue_ok q" and sched: "retryQueue_schedule e q = ((pending, x), q')"
  shows "retry_queue_ok q' \<and>
    (rq_closed q \<longrightarrow> pending = None \<and> x = Some ErrClosed \<and> q' = q) \<and>
    (\<not> rq_closed q \<longrightarrow> x = None \<and>
       add_mset (e\<lparr>ce_retryOrder := wrap_uint64 (rq_sequence q + 1)\<rparr>) (mset (rq_items q)) =
         (case pending of None \<Rightarrow> {#} | Some p \<Rightarrow> {#p#}) + mset (rq_items q') \<and>
       (pending = None \<longleftrightarrow> int (length (rq_items q)) < rq_capacity q) \<and>
       (\<forall>p. pending = Some p \<longrightarrow>
          (\<forall>z \<in> set (rq_items q'). (ce_retryAfter p, ce_retryOrder p) \<le> (ce_retryAfter z, ce_retryOrder z))))"
proof (cases "rq_closed q")
  case True
  then show ?thesis using assms by (auto simp: retryQueue_schedule_def)
next
  case open_q: False
  show ?thesis
  proof (cases "int (length (rq_items q)) < rq_capacity q")
    case True
    then show ?thesis using schedule_room [OF ok open_q True sched] open_q by simp
  next
    case False
    then have full: "int (length (rq_items q)) = rq_capacity q" using ok by (simp add: retry_queue_ok_def)
    obtain p where "(pending, x) = (Some p, None)" "retry_queue_ok q'"
        "add_mset (e\<lparr>ce_retryOrder := wrap_uint64 (rq_sequence q + 1)\<rparr>) (mset (rq_items q)) = add_mset p (mset (rq_items q'))"
        "\<forall>y \<in># add_mset (e\<lparr>ce_retryOrder := wrap_uint64 (rq_sequence q + 1)\<rparr>) (mset (rq_items q)). \<not> retryHeap_Less y p"
      by (rule schedule_full [OF ok open_q full sched])
    then show ?thesis using open_q False by (simp add: Less_lex)
  qed
qed

theorem schedule_overflow_hands_back_witness:
  "\<exists>p. fst (fst (retryQueue_schedule (demo_waiting 1) demo_retries)) = Some p"
proof -
  obtain pending x q' where s: "retryQueue_schedule (demo_waiting 1) demo_retries = ((pending, x), q')" by (metis surj_pair)
  have "pending \<noteq> None"
    using schedule_overflow_hands_back [OF demo_retries_ok s] by (simp add: demo_retries_def newRetryQueue_def)
  then show ?thesis using s by auto
qed

end
