(* ===== verification/Options.thy ===== *)
theory Options
  imports Client
begin

text \<open>
  The configuration of \<^verbatim>\<open>options.go\<close>: the \<^verbatim>\<open>config\<close> struct, its defaults, every bus option
  and registration option, the option loop of \<^verbatim>\<open>New\<close>, and the retry backoff that
  \<^verbatim>\<open>worker\<close> computes from the configuration. The invariant \<open>config_ok\<close> is what the
  options guarantee and the rest of the bus relies on: positive capacities, attempts and ticker
  periods, and a backoff that starts positive and does not exceed its maximum.
\<close>

section \<open>The configuration\<close>

text \<open>A \<^verbatim>\<open>DataConverter\<close>: the package's JSON converter, a nil interface, or a converter of
  the application with its two methods.\<close>

datatype converter =
    NilConverter
  | JSONConverter
  | CustomConverter "event \<Rightarrow> bool" "event \<Rightarrow> err + string"

record config =
  cfg_workers :: int
  cfg_sendCapacity :: int
  cfg_retryCapacity :: int
  cfg_attempts :: int
  cfg_synchronous :: bool
  cfg_schedulerDelay :: duration
  cfg_expiration :: duration
  cfg_expirationScan :: duration
  cfg_retryBase :: duration
  cfg_retryMax :: duration
  cfg_heartbeatInterval :: duration
  cfg_heartbeatComment :: string
  cfg_replayStore :: iface
  cfg_replayRetention :: duration
  cfg_replayCleanup :: duration
  cfg_converters :: "converter list"
  cfg_registry :: iface
  cfg_listener :: iface
  cfg_observer :: iface
  cfg_panicHandler :: iface
  cfg_distributed :: iface

abbreviation time_Millisecond :: duration where "time_Millisecond \<equiv> 1000000"
abbreviation time_Second :: duration where "time_Second \<equiv> 1000000000"
abbreviation time_Minute :: duration where "time_Minute \<equiv> 60 * time_Second"
abbreviation time_Hour :: duration where "time_Hour \<equiv> 60 * time_Minute"

text \<open>A pointer to a fresh registry and the empty struct \<^verbatim>\<open>NopListener\<close>: both non-nil.\<close>

definition default_registry :: iface where
  "default_registry = Some \<lparr>conn_type = 1, conn_kind = KPointer, conn_comparable = True, conn_data = 1,
     conn_pointer = 1, conn_len = 0, conn_cap = 0\<rparr>"

definition NopListener :: iface where
  "NopListener = Some \<lparr>conn_type = 2, conn_kind = KOther, conn_comparable = True, conn_data = 0,
     conn_pointer = 0, conn_len = 0, conn_cap = 0\<rparr>"

definition defaultConfig :: config where
  "defaultConfig =
     \<lparr>cfg_workers = 1, cfg_sendCapacity = 10000, cfg_retryCapacity = 10000, cfg_attempts = 40,
      cfg_synchronous = False,
      cfg_schedulerDelay = 500 * time_Millisecond, cfg_expiration = 24 * time_Hour,
      cfg_expirationScan = 24 * time_Hour,
      cfg_retryBase = time_Second, cfg_retryMax = 30 * time_Second,
      cfg_heartbeatInterval = 0, cfg_heartbeatComment = ''heartbeat'',
      cfg_replayStore = None, cfg_replayRetention = 5 * time_Minute, cfg_replayCleanup = 5 * time_Minute,
      cfg_converters = [JSONConverter], cfg_registry = default_registry, cfg_listener = NopListener,
      cfg_observer = None, cfg_panicHandler = None, cfg_distributed = None\<rparr>"

section \<open>Bus options\<close>

type_synonym bus_option = "config \<Rightarrow> err + config"

definition WithWorkerCount :: "int \<Rightarrow> bus_option" where
  "WithWorkerCount n c =
     (if n < 1 then Inl (ErrNew ''worker count must be positive'') else Inr (c\<lparr>cfg_workers := n\<rparr>))"

definition WithSynchronousDelivery :: bus_option where
  "WithSynchronousDelivery c = Inr (c\<lparr>cfg_synchronous := True\<rparr>)"

definition WithQueueCapacities :: "int \<Rightarrow> int \<Rightarrow> bus_option" where
  "WithQueueCapacities send retry c =
     (if send < 1 \<or> retry < 1 then Inl (ErrNew ''queue capacities must be positive'')
      else Inr (c\<lparr>cfg_sendCapacity := send, cfg_retryCapacity := retry\<rparr>))"

definition WithSendAttempts :: "int \<Rightarrow> bus_option" where
  "WithSendAttempts attempts c =
     (if attempts < 1 then Inl (ErrNew ''send attempts must be positive'')
      else Inr (c\<lparr>cfg_attempts := attempts\<rparr>))"

definition WithSchedulerDelay :: "duration \<Rightarrow> bus_option" where
  "WithSchedulerDelay delay c =
     (if delay \<le> 0 then Inl (ErrNew ''scheduler delay must be positive'')
      else Inr (c\<lparr>cfg_schedulerDelay := delay\<rparr>))"

definition WithRetryBackoff :: "duration \<Rightarrow> duration \<Rightarrow> bus_option" where
  "WithRetryBackoff initial maximum c =
     (if initial \<le> 0 \<or> maximum < initial
      then Inl (ErrNew ''retry backoff must be positive and maximum must not be less than initial'')
      else Inr (c\<lparr>cfg_retryBase := initial, cfg_retryMax := maximum\<rparr>))"

definition WithClientExpiration :: "duration \<Rightarrow> duration \<Rightarrow> bus_option" where
  "WithClientExpiration expiration scanInterval c =
     (if expiration \<le> 0 \<or> scanInterval \<le> 0
      then Inl (ErrNew ''client expiration and scan interval must be positive'')
      else Inr (c\<lparr>cfg_expiration := expiration, cfg_expirationScan := scanInterval\<rparr>))"

definition WithoutClientExpiration :: bus_option where
  "WithoutClientExpiration c = Inr (c\<lparr>cfg_expiration := 0, cfg_expirationScan := 0\<rparr>)"

definition WithHeartbeat :: "duration \<Rightarrow> string \<Rightarrow> bus_option" where
  "WithHeartbeat interval comment c =
     (if interval < 0 then Inl (ErrNew ''heartbeat interval cannot be negative'')
      else let c1 = c\<lparr>cfg_heartbeatInterval := interval\<rparr>
           in Inr (if comment \<noteq> [] then c1\<lparr>cfg_heartbeatComment := comment\<rparr> else c1))"

definition WithReplay :: "iface \<Rightarrow> duration \<Rightarrow> duration \<Rightarrow> bus_option" where
  "WithReplay store retention cleanupInterval c =
     (if isNil store then Inl (ErrNew ''replay store cannot be nil'')
      else if retention \<le> 0 \<or> cleanupInterval \<le> 0
      then Inl (ErrNew ''replay retention and cleanup interval must be positive'')
      else Inr (c\<lparr>cfg_replayStore := store, cfg_replayRetention := retention, cfg_replayCleanup := cleanupInterval\<rparr>))"

definition WithConverters :: "converter list \<Rightarrow> bus_option" where
  "WithConverters converters c =
     (if length converters = 0 then Inl (ErrNew ''at least one converter is required'')
      else if \<exists>x \<in> set converters. x = NilConverter then Inl (ErrNew ''converter cannot be nil'')
      else Inr (c\<lparr>cfg_converters := converters\<rparr>))"

definition WithSubscriptionRegistry :: "iface \<Rightarrow> bus_option" where
  "WithSubscriptionRegistry registry c =
     (if isNil registry then Inl (ErrNew ''subscription registry cannot be nil'')
      else Inr (c\<lparr>cfg_registry := registry\<rparr>))"

definition WithListener :: "iface \<Rightarrow> bus_option" where
  "WithListener listener c =
     (if isNil listener then Inl (ErrNew ''listener cannot be nil'') else Inr (c\<lparr>cfg_listener := listener\<rparr>))"

definition WithObserver :: "iface \<Rightarrow> bus_option" where
  "WithObserver observer c =
     (if isNil observer then Inl (ErrNew ''observer cannot be nil'') else Inr (c\<lparr>cfg_observer := observer\<rparr>))"

definition WithPanicHandler :: "iface \<Rightarrow> bus_option" where
  "WithPanicHandler handler c =
     (if isNil handler then Inl (ErrNew ''panic handler cannot be nil'')
      else Inr (c\<lparr>cfg_panicHandler := handler\<rparr>))"

definition WithDistributedTransport :: "iface \<Rightarrow> bus_option" where
  "WithDistributedTransport transport c =
     (if isNil transport then Inl (ErrNew ''distributed transport cannot be nil'')
      else Inr (c\<lparr>cfg_distributed := transport\<rparr>))"

text \<open>The loop of \<^verbatim>\<open>New\<close> over its options; a nil option is \<^const>\<open>None\<close>.\<close>

fun apply_options :: "bus_option option list \<Rightarrow> config \<Rightarrow> err + config" where
  "apply_options [] c = Inr c"
| "apply_options (None # os) c = Inl (ErrNew ''option cannot be nil'')"
| "apply_options (Some f # os) c = (case f c of Inl e \<Rightarrow> Inl e | Inr c1 \<Rightarrow> apply_options os c1)"

section \<open>Registration options\<close>

record registration_config =
  reg_events :: "string list"
  reg_replace :: bool
  reg_complete :: bool
  reg_lastEventID :: string
  reg_replay :: bool

definition zero_registration :: registration_config where
  "zero_registration =
     \<lparr>reg_events = [], reg_replace = False, reg_complete = False, reg_lastEventID = [], reg_replay = False\<rparr>"

type_synonym registration_option = "registration_config \<Rightarrow> registration_config"

definition SubscribeTo :: "string list \<Rightarrow> registration_option" where
  "SubscribeTo events c = c\<lparr>reg_events := reg_events c @ events\<rparr>"

definition ReplaceSubscriptions :: "string list \<Rightarrow> registration_option" where
  "ReplaceSubscriptions events c = c\<lparr>reg_replace := True, reg_events := reg_events c @ events\<rparr>"

definition CompleteAfterMessage :: registration_option where
  "CompleteAfterMessage c = c\<lparr>reg_complete := True\<rparr>"

definition ReplayFrom :: "string \<Rightarrow> registration_option" where
  "ReplayFrom lastEventID c = c\<lparr>reg_lastEventID := lastEventID, reg_replay := True\<rparr>"

text \<open>The option loop of \<^verbatim>\<open>RegisterContext\<close>, which skips nil options.\<close>

fun apply_registration :: "registration_option option list \<Rightarrow> registration_config \<Rightarrow> registration_config" where
  "apply_registration [] c = c"
| "apply_registration (None # os) c = apply_registration os c"
| "apply_registration (Some f # os) c = apply_registration os (f c)"

section \<open>Retry backoff\<close>

text \<open>Go's \<open>/\<close> truncates towards zero.\<close>

definition go_half :: "int \<Rightarrow> int" where
  "go_half x = (if x \<ge> 0 then x div 2 else - ((- x) div 2))"

fun backoff_loop :: "nat \<Rightarrow> duration \<Rightarrow> duration \<Rightarrow> duration" where
  "backoff_loop 0 retryMax delay = delay"
| "backoff_loop (Suc n) retryMax delay =
     (if delay > go_half retryMax then retryMax
      else backoff_loop n retryMax (wrap_int64 (delay * 2)))"

definition retry_delay :: "config \<Rightarrow> client_event \<Rightarrow> duration" where
  "retry_delay cfg event =
     min (backoff_loop (nat (min (ClientEvent_Attempts event - 1) 63)) (cfg_retryMax cfg) (cfg_retryBase cfg))
         (cfg_retryMax cfg)"

section \<open>The configuration invariant\<close>

definition config_ok :: "config \<Rightarrow> bool" where
  "config_ok c \<longleftrightarrow>
     1 \<le> cfg_workers c \<and> 1 \<le> cfg_sendCapacity c \<and> 1 \<le> cfg_retryCapacity c \<and> 1 \<le> cfg_attempts c \<and>
     0 < cfg_schedulerDelay c \<and>
     (0 < cfg_expiration c \<longrightarrow> 0 < cfg_expirationScan c) \<and> 0 \<le> cfg_expiration c \<and>
     0 < cfg_retryBase c \<and> cfg_retryBase c \<le> cfg_retryMax c \<and> cfg_retryMax c \<le> max_int64 \<and>
     0 \<le> cfg_heartbeatInterval c \<and> cfg_heartbeatComment c \<noteq> [] \<and>
     (cfg_replayStore c = None \<or> \<not> isNil (cfg_replayStore c)) \<and> 0 < cfg_replayRetention c \<and> 0 < cfg_replayCleanup c \<and>
     cfg_converters c \<noteq> [] \<and> NilConverter \<notin> set (cfg_converters c) \<and>
     \<not> isNil (cfg_registry c) \<and> \<not> isNil (cfg_listener c)"

text \<open>The options the package offers, with durations in the range of \<^verbatim>\<open>int64\<close>.\<close>

inductive package_option :: "bus_option \<Rightarrow> bool" where
  "package_option (WithWorkerCount n)"
| "package_option WithSynchronousDelivery"
| "package_option (WithQueueCapacities n m)"
| "package_option (WithSendAttempts n)"
| "package_option (WithSchedulerDelay d)"
| "maximum \<le> max_int64 \<Longrightarrow> package_option (WithRetryBackoff initial maximum)"
| "package_option (WithClientExpiration d d')"
| "package_option WithoutClientExpiration"
| "package_option (WithHeartbeat d comment)"
| "package_option (WithReplay store d d')"
| "package_option (WithConverters cs)"
| "package_option (WithSubscriptionRegistry r)"
| "package_option (WithListener l)"
| "package_option (WithObserver obs)"
| "package_option (WithPanicHandler h)"
| "package_option (WithDistributedTransport t)"

lemmas option_defs =
  WithWorkerCount_def WithSynchronousDelivery_def WithQueueCapacities_def WithSendAttempts_def
  WithSchedulerDelay_def WithRetryBackoff_def WithClientExpiration_def WithoutClientExpiration_def
  WithHeartbeat_def WithReplay_def WithConverters_def WithSubscriptionRegistry_def WithListener_def
  WithObserver_def WithPanicHandler_def WithDistributedTransport_def

lemma config_ok_default [simp]: "config_ok defaultConfig"
  by (simp add: config_ok_def defaultConfig_def default_registry_def NopListener_def max_int64_def)

lemma package_option_ok: "package_option f \<Longrightarrow> config_ok c \<Longrightarrow> f c = Inr c' \<Longrightarrow> config_ok c'"
  by (erule package_option.cases;
      clarsimp simp: option_defs Let_def split: if_splits; simp add: config_ok_def)

lemma apply_options_ok:
  "\<forall>f. Some f \<in> set os \<longrightarrow> package_option f \<Longrightarrow> config_ok c \<Longrightarrow> apply_options os c = Inr c' \<Longrightarrow> config_ok c'"
proof (induction os c rule: apply_options.induct)
  case (3 f os c)
  then show ?case by (cases "f c") (auto intro: package_option_ok)
qed simp_all

section \<open>The backoff doubles until it reaches its maximum and never overflows\<close>

lemma go_half_pos: "0 \<le> x \<Longrightarrow> go_half x = x div 2"
  by (simp add: go_half_def)

lemma backoff_loop_eq:
  "0 < delay \<Longrightarrow> delay \<le> retryMax \<Longrightarrow> retryMax \<le> max_int64 \<Longrightarrow>
   min (backoff_loop n retryMax delay) retryMax = min (delay * 2 ^ n) retryMax"
proof (induction n arbitrary: delay)
  case (Suc n)
  show ?case
  proof (cases "delay > retryMax div 2")
    case True
    then have "retryMax \<le> delay * 2" by linarith
    moreover have "delay * 2 \<le> delay * 2 ^ Suc n" using Suc.prems by simp
    ultimately have "retryMax \<le> delay * 2 ^ Suc n" by (rule order_trans)
    then show ?thesis using True Suc.prems by (simp add: go_half_pos min_absorb2)
  next
    case False
    then have le: "delay * 2 \<le> retryMax" by linarith
    then have "wrap_int64 (delay * 2) = delay * 2"
      using Suc.prems by (intro wrap_int64_id) auto
    then show ?thesis using False Suc.IH [of "delay * 2"] Suc.prems le
      by (simp add: go_half_pos mult.assoc)
  qed
qed simp

lemma retry_delay_eq:
  assumes "config_ok cfg" "1 \<le> ce_attempts event"
  shows "retry_delay cfg event =
    min (cfg_retryBase cfg * 2 ^ nat (ce_attempts event - 1)) (cfg_retryMax cfg)"
proof -
  let ?b = "cfg_retryBase cfg" and ?m = "cfg_retryMax cfg" and ?n = "nat (ce_attempts event - 1)"
  have cfg: "0 < ?b" "?b \<le> ?m" "?m \<le> max_int64" using assms(1) by (auto simp: config_ok_def)
  have "retry_delay cfg event = min (?b * 2 ^ min ?n 63) ?m"
    using backoff_loop_eq [OF cfg, of "min ?n 63"] assms(2)
    by (simp add: retry_delay_def ClientEvent_Attempts_def min_def nat_le_iff split: if_splits)
  also have "\<dots> = min (?b * 2 ^ ?n) ?m"
  proof (cases "?n \<le> 63")
    case False
    have "?m \<le> 2 ^ 63" using cfg(3) by (simp add: max_int64_def)
    also have "\<dots> \<le> ?b * 2 ^ 63" using cfg(1) by simp
    finally have 63: "?m \<le> ?b * 2 ^ 63" .
    moreover have "?b * 2 ^ 63 \<le> ?b * 2 ^ ?n"
      using cfg(1) False by (intro mult_left_mono power_increasing) auto
    ultimately have "?m \<le> ?b * 2 ^ ?n" by (rule order_trans)
    with 63 False show ?thesis by (simp add: min_absorb2)
  qed (simp add: min_absorb1)
  finally show ?thesis .
qed

text \<open>C31. The delay before the next attempt of an event that failed \<open>n\<close> times is the base
  delay doubled \<open>n - 1\<close> times, capped at the maximum: it never overflows \<^verbatim>\<open>int64\<close>, is positive, is
  at least the base and at most the maximum, for every number of attempts.\<close>

theorem retry_delay_doubles:
  assumes "config_ok cfg" "1 \<le> ClientEvent_Attempts event"
  shows "retry_delay cfg event =
      min (cfg_retryBase cfg * 2 ^ nat (ClientEvent_Attempts event - 1)) (cfg_retryMax cfg) \<and>
    0 < retry_delay cfg event \<and> cfg_retryBase cfg \<le> retry_delay cfg event \<and> retry_delay cfg event \<le> cfg_retryMax cfg"
proof -
  have eq: "retry_delay cfg event = min (cfg_retryBase cfg * 2 ^ nat (ce_attempts event - 1)) (cfg_retryMax cfg)"
    using retry_delay_eq assms by (simp add: ClientEvent_Attempts_def)
  have base: "0 < cfg_retryBase cfg" "cfg_retryBase cfg \<le> cfg_retryMax cfg" using assms(1) by (simp_all add: config_ok_def)
  have "cfg_retryBase cfg * 1 \<le> cfg_retryBase cfg * 2 ^ nat (ce_attempts event - 1)"
    using base(1) by (intro mult_left_mono) simp_all
  then show ?thesis using eq base by (simp add: ClientEvent_Attempts_def)
qed

definition demo_failed :: "int \<Rightarrow> client_event" where
  "demo_failed n =
     \<lparr>ce_ClientID = ''a'', ce_Event = NewNamedEvent ''news'', ce_Message = \<lparr>msg_Event = ''news'', msg_Data = [],
        msg_HasData = False, msg_Retry = 0, msg_ID = [], msg_Comment = []\<rparr>,
      ce_client = 0, ce_attempts = n, ce_retryAfter = 0, ce_retryOrder = 0, ce_generation = 0, ce_sendOrder = 1\<rparr>"

theorem retry_delay_doubles_witness:
  "retry_delay defaultConfig (demo_failed 3) = 4 * time_Second \<and> retry_delay defaultConfig (demo_failed 40) = 30 * time_Second"
  using retry_delay_doubles [OF config_ok_default, of "demo_failed 3"] retry_delay_doubles [OF config_ok_default, of "demo_failed 40"]
  by (simp add: demo_failed_def ClientEvent_Attempts_def defaultConfig_def)

end
