(* ===== verification/Bus.thy ===== *)
theory Bus
  imports Subscription Replay Tickets Retry_Queue Options
begin

text \<open>
  The bus of \<^verbatim>\<open>bus.go\<close>: its state and its operations, each as one function from state to
  state. The client registry is a map to references into the client heap, so that a replaced client is a different reference under the same ID. An
  operation is written as a caller without competitors sees it; theory \<open>System\<close> also takes its critical sections as single steps. The
  lock of \<^verbatim>\<open>lockClientContext\<close> contributes the context check made once it is held (theory \<open>Client_Lock\<close> has its protocol). An operation that has to wait for queue space is blocked: it
  reports \<open>Blocked\<close> with the state it waits in.
\<close>

section \<open>State\<close>

record bus = world +
  b_config :: config
  b_clients :: "string \<rightharpoonup> cref"
  b_sendQueue :: event_queue
  b_retryQueue :: retry_queue
  b_registry :: memory_registry
  b_replayStore :: memory_replay_store
  b_closed :: bool
  b_stopped :: bool
  b_shutdownErr :: "err option"
  b_shutdownDone :: bool
  b_removals :: "(string \<times> cref) list"

datatype 'a outcome = Return 'a | Blocked

definition zero_client :: client where
  "zero_client =
     \<lparr>nextOrder = 0, nextTurn = 0, canceledOrders = [], connection = None, lastTransfer = 0,
      completeAfterMessage = False, inactive = False, connectionClosed = False, replayGeneration = 0\<rparr>"

datatype goroutine = Worker | RetryLoop | ExpirationLoop | HeartbeatLoop | ReplayCleanupLoop

definition started_goroutines :: "config \<Rightarrow> goroutine list" where
  "started_goroutines c =
     (if \<not> cfg_synchronous c then replicate (nat (cfg_workers c)) Worker @ [RetryLoop] else []) @
     (if cfg_expiration c > 0 then [ExpirationLoop] else []) @
     (if cfg_heartbeatInterval c > 0 then [HeartbeatLoop] else []) @
     (if cfg_replayStore c \<noteq> None then [ReplayCleanupLoop] else [])"

text \<open>\<^verbatim>\<open>New\<close>; the extra argument is what the transport's \<^verbatim>\<open>SetRemoteEventConsumer\<close> returns.\<close>

definition initial_bus :: "config \<Rightarrow> bus" where
  "initial_bus c =
     \<lparr>heap = (\<lambda>_. zero_client), nextRef = 0, log = [],
      b_config = c, b_clients = Map.empty,
      b_sendQueue = newEventQueue (cfg_sendCapacity c), b_retryQueue = newRetryQueue (cfg_retryCapacity c),
      b_registry = NewMemorySubscriptionRegistry, b_replayStore = NewMemoryReplayStore,
      b_closed = False, b_stopped = False, b_shutdownErr = None, b_shutdownDone = False, b_removals = []\<rparr>"

definition New :: "bus_option option list \<Rightarrow> err option \<Rightarrow> err + (bus \<times> goroutine list)" where
  "New options consumerErr =
     (case apply_options options defaultConfig of
        Inl e \<Rightarrow> Inl e
      | Inr c \<Rightarrow>
          (case (if cfg_distributed c \<noteq> None then consumerErr else None) of
             Some e \<Rightarrow> Inl (ErrWrap ''configure distributed transport'' e)
           | None \<Rightarrow> Inr (initial_bus c, started_goroutines c)))"

section \<open>Listener and observer calls\<close>

text \<open>A panic in an extension is recovered; with a panic handler it is reported.\<close>

definition call_extension :: "env \<Rightarrow> effect \<Rightarrow> bus \<Rightarrow> bus" where
  "call_extension env x b =
     (if env_panics env (log b) \<and> cfg_panicHandler (b_config b) \<noteq> None
      then emit PanicHandlerCall (emit x b) else emit x b)"

definition Bus_observe :: "env \<Rightarrow> observation \<Rightarrow> bus \<Rightarrow> bus" where
  "Bus_observe env obs b =
     (if cfg_observer (b_config b) = None then b else call_extension env (ObserveCall obs) b)"

definition Bus_notifyQueued :: "env \<Rightarrow> client_event \<Rightarrow> bool \<Rightarrow> bus \<Rightarrow> bus" where
  "Bus_notifyQueued env e first b = call_extension env (QueuedCall (listenerSnapshot e) first) b"

definition Bus_notifySent :: "env \<Rightarrow> client_event \<Rightarrow> err option \<Rightarrow> bus \<Rightarrow> bus" where
  "Bus_notifySent env e r b =
     (let obs = (zero_observation OperationSendEvent (if r \<noteq> None then ''error'' else ''success''))
            \<lparr>obs_ClientID := ce_ClientID e, obs_EventName := ev_Name (ce_Event e),
             obs_Replay := ev_ID (ce_Event e) \<noteq> [],
             obs_CompleteAfterMessage := completeAfterMessage (heap b (ce_client e)),
             obs_Attempt := ClientEvent_Attempts e, obs_Err := r\<rparr>
      in call_extension env (SentCall (listenerSnapshot e) r) (Bus_observe env obs b))"

definition Bus_notifyUnregistered :: "env \<Rightarrow> string list \<Rightarrow> bus \<Rightarrow> bus" where
  "Bus_notifyUnregistered env ids b = call_extension env (UnregisteredCall ids) b"

record delivery_notification =
  dn_event :: client_event
  dn_sent :: bool
  dn_err :: "err option"

definition Bus_notifyDeliveries :: "env \<Rightarrow> delivery_notification list \<Rightarrow> bus \<Rightarrow> bus" where
  "Bus_notifyDeliveries env ns b =
     fold (\<lambda>n b. let b1 = Bus_notifyQueued env (dn_event n) True b
                in if dn_sent n then Bus_notifySent env (dn_event n) (dn_err n) b1 else b1) ns b"

section \<open>Pending events and currency\<close>

definition pending_match :: "cref \<Rightarrow> bool \<Rightarrow> client_event \<Rightarrow> bool" where
  "pending_match c replayableOnly e \<longleftrightarrow> ce_client e = c \<and> (\<not> replayableOnly \<or> ev_ID (ce_Event e) \<noteq> [])"

definition Bus_removePending :: "cref \<Rightarrow> bool \<Rightarrow> bus \<Rightarrow> bus" where
  "Bus_removePending c replayableOnly b =
     (let match = pending_match c replayableOnly;
          (q, b1) = eventQueue_remove match (b_sendQueue b) b
      in b1\<lparr>b_sendQueue := q, b_retryQueue := retryQueue_remove match (b_retryQueue b1)\<rparr>)"

definition Bus_isCurrentEvent :: "client_event \<Rightarrow> bus \<Rightarrow> bool" where
  "Bus_isCurrentEvent e b =
     (let current = (b_clients b (ce_ClientID e) = Some (ce_client e))
      in if \<not> current \<or> ev_ID (ce_Event e) = [] then current
         else ce_generation e = replayGeneration (heap b (ce_client e)))"

section \<open>Subscriptions\<close>

definition Bus_Subscribe :: "string \<Rightarrow> string list \<Rightarrow> bus \<Rightarrow> bus" where
  "Bus_Subscribe clientID events b =
     b\<lparr>b_registry := subscribe_events Registry_Subscribe clientID events (b_registry b)\<rparr>"

definition Bus_UnsubscribeFromAll :: "env \<Rightarrow> string \<Rightarrow> string list \<Rightarrow> bus \<Rightarrow> bus" where
  "Bus_UnsubscribeFromAll env clientID keepEvents b =
     b\<lparr>b_registry := unsubscribe_from_all Registry_UnsubscribeAll (Registry_AllEvents (env_range env (log b)))
          Registry_Unsubscribe clientID keepEvents (b_registry b)\<rparr>"

definition Bus_SubscribeOnly :: "env \<Rightarrow> string \<Rightarrow> string \<Rightarrow> bus \<Rightarrow> bus" where
  "Bus_SubscribeOnly env clientID event b =
     Bus_Subscribe clientID [event] (Bus_UnsubscribeFromAll env clientID [event] b)"

definition Bus_Unsubscribe :: "string \<Rightarrow> string \<Rightarrow> bus \<Rightarrow> bus" where
  "Bus_Unsubscribe clientID event b = b\<lparr>b_registry := Registry_Unsubscribe clientID event (b_registry b)\<rparr>"

section \<open>Delivery\<close>

datatype deliver_result = Delivered bool "err option" client_event | DeliverBlocked

definition Bus_deliver :: "env \<Rightarrow> go_context \<Rightarrow> client_event \<Rightarrow> bus \<Rightarrow> deliver_result \<times> bus" where
  "Bus_deliver env ctx e b =
     (if cfg_synchronous (b_config b)
      then (case Bus_send env e b of ((sent, r, e1), b1) \<Rightarrow> (Delivered sent r e1, b1))
      else (case eventQueue_push ctx e (b_sendQueue b) b of
              (PushErr x, q, b1) \<Rightarrow> (Delivered False (Some x) e, b1\<lparr>b_sendQueue := q\<rparr>)
            | (Pushed e1, q, b1) \<Rightarrow> (Delivered False None e1, b1\<lparr>b_sendQueue := q\<rparr>)
            | (PushWait, q, b1) \<Rightarrow> (DeliverBlocked, b1\<lparr>b_sendQueue := q\<rparr>)))"

text \<open>A nil converter has no methods to call; the options refuse one, and it supports nothing here.\<close>

definition converter_Supports :: "converter \<Rightarrow> event \<Rightarrow> bool" where
  "converter_Supports c e =
     (case c of NilConverter \<Rightarrow> False | JSONConverter \<Rightarrow> True | CustomConverter s f \<Rightarrow> s e)"

definition JSONConverter_Convert :: "env \<Rightarrow> event \<Rightarrow> err + string" where
  "JSONConverter_Convert env e =
     (if ev_Data e = NilData then Inr [] else env_marshal env (ev_Data e))"

definition converter_Convert :: "env \<Rightarrow> converter \<Rightarrow> event \<Rightarrow> err + string" where
  "converter_Convert env c e =
     (case c of NilConverter \<Rightarrow> Inl (ErrNew ''nil converter'') | JSONConverter \<Rightarrow> JSONConverter_Convert env e
      | CustomConverter s f \<Rightarrow> f e)"

text \<open>The converted text and whether there is any.\<close>

definition Bus_convert :: "env \<Rightarrow> config \<Rightarrow> event \<Rightarrow> err + (string \<times> bool)" where
  "Bus_convert env cfg event =
     (case ev_Data event of
        NilData \<Rightarrow> Inr ([], False)
      | StringData s \<Rightarrow> Inr (s, True)
      | OtherData n \<Rightarrow>
          (case find (\<lambda>c. converter_Supports c event) (cfg_converters cfg) of
             None \<Rightarrow> Inl (ErrNew (''no data converter supports event '' @ ev_Name event))
           | Some c \<Rightarrow> (case converter_Convert env c event of Inl x \<Rightarrow> Inl x | Inr s \<Rightarrow> Inr (s, True))))"

definition new_client_event :: "string \<Rightarrow> event \<Rightarrow> message \<Rightarrow> cref \<Rightarrow> nat \<Rightarrow> client_event" where
  "new_client_event clientID event msg target generation =
     \<lparr>ce_ClientID = clientID, ce_Event = event, ce_Message = msg, ce_client = target, ce_attempts = 0,
      ce_retryAfter = 0, ce_retryOrder = 0, ce_generation = generation, ce_sendOrder = 0\<rparr>"

definition event_message :: "event \<Rightarrow> string \<Rightarrow> bool \<Rightarrow> message" where
  "event_message event converted hasConverted =
     \<lparr>msg_Event = ev_Name event, msg_Data = converted, msg_HasData = hasConverted,
      msg_Retry = ev_Retry event, msg_ID = ev_ID event, msg_Comment = ev_Comment event\<rparr>"

section \<open>Publishing\<close>

text \<open>The locals of the loop in \<^verbatim>\<open>handle\<close>: the conversion once it is done, the delivery count
  and the collected errors of a synchronous bus.\<close>

record handle_locals =
  hl_converted :: "(string \<times> bool) option"
  hl_deliveryCount :: int
  hl_deliveryErrors :: "err list"

datatype handle_control = HNext handle_locals | HReturn "err option" | HBlocked

definition replay_enabled :: "config \<Rightarrow> event \<Rightarrow> bool" where
  "replay_enabled cfg event \<longleftrightarrow> cfg_replayStore cfg \<noteq> None \<and> ev_ID event \<noteq> []"

definition handle_observation ::
  "config \<Rightarrow> operation \<Rightarrow> event \<Rightarrow> bool \<Rightarrow> int \<Rightarrow> err option \<Rightarrow> observation" where
  "handle_observation cfg oper event direct n r =
     (zero_observation oper (if r \<noteq> None then ''error'' else ''success''))
       \<lparr>obs_EventName := ev_Name event, obs_Direct := direct, obs_Replay := replay_enabled cfg event,
        obs_DeliveryCount := n, obs_Err := r\<rparr>"

text \<open>The part of an iteration under the client's lock, from the message on: store for replay,
  deliver to an active client, notify, and decide how the loop goes on.\<close>

definition handle_deliver ::
  "env \<Rightarrow> go_context \<Rightarrow> operation \<Rightarrow> event \<Rightarrow> bool \<Rightarrow> string \<Rightarrow> cref \<Rightarrow> (string \<times> bool) \<Rightarrow> handle_locals \<Rightarrow> bus \<Rightarrow>
   handle_control \<times> bus" where
  "handle_deliver env ctx oper event direct cid target conv l b =
     (let e = new_client_event cid event (event_message event (fst conv) (snd conv)) target
                (replayGeneration (heap b target));
          b1 = (if replay_enabled (b_config b) event
                then b\<lparr>b_replayStore := ReplayStore_Store
                        \<lparr>re_ClientID = cid, re_Event = event, re_ConvertedValue = fst conv,
                         re_HasConverted = snd conv, re_StoredAt = env_now env (log b)\<rparr> (b_replayStore b)\<rparr>
                else b)
      in if \<not> client_isActive target b1 then (HNext l, b1)
         else case Bus_deliver env ctx e b1 of
                (DeliverBlocked, b2) \<Rightarrow> (HBlocked, b2)
              | (Delivered sent r e1, b2) \<Rightarrow>
                  if err_is r errInactiveClient then (HNext l, b2)
                  else let b3 = (if r = None \<or> sent then Bus_notifyQueued env e1 True b2 else b2);
                           b4 = (if sent then Bus_notifySent env e1 r b3 else b3)
                       in case r of
                            None \<Rightarrow> (HNext (l\<lparr>hl_deliveryCount := hl_deliveryCount l + 1\<rparr>), b4)
                          | Some x \<Rightarrow>
                              if cfg_synchronous (b_config b4)
                              then (HNext (l\<lparr>hl_deliveryCount := hl_deliveryCount l + 1,
                                            hl_deliveryErrors := hl_deliveryErrors l @ [ErrWrap (''send to client '' @ cid) x]\<rparr>), b4)
                              else (HReturn (Some x),
                                    Bus_observe env (handle_observation (b_config b4) oper event direct (hl_deliveryCount l) (Some x)) b4))"

text \<open>One iteration: skip excluded, unsubscribed and unknown clients, convert once, take the
  client's lock, check again under it.\<close>

definition handle_client ::
  "env \<Rightarrow> go_context \<Rightarrow> operation \<Rightarrow> event \<Rightarrow> bool \<Rightarrow> string set \<Rightarrow> string \<Rightarrow> handle_locals \<Rightarrow> bus \<Rightarrow>
   handle_control \<times> bus" where
  "handle_client env ctx oper event direct excluded cid l b =
     (if cid \<in> excluded then (HNext l, b)
      else if \<not> Registry_IsSubscribed cid (ev_Name event) (b_registry b) then (HNext l, b)
      else case b_clients b cid of
             None \<Rightarrow> (HNext l, b)
           | Some _ \<Rightarrow>
               (case (case hl_converted l of Some v \<Rightarrow> Inr v | None \<Rightarrow> Bus_convert env (b_config b) event) of
                  Inl x \<Rightarrow>
                    (HReturn (Some x),
                     Bus_observe env ((zero_observation oper ''error'')
                       \<lparr>obs_EventName := ev_Name event, obs_Direct := direct, obs_Err := Some x\<rparr>) b)
                | Inr conv \<Rightarrow>
                    (let l1 = l\<lparr>hl_converted := Some conv\<rparr>
                     in case ctx (log b) of
                          Some x \<Rightarrow> (HReturn (Some x), b)
                        | None \<Rightarrow>
                            if \<not> Registry_IsSubscribed cid (ev_Name event) (b_registry b) then (HNext l1, b)
                            else case b_clients b cid of
                                   None \<Rightarrow> (HNext l1, b)
                                 | Some target \<Rightarrow>
                                     if b_stopped b then (HReturn (Some ErrClosed), b)
                                     else handle_deliver env ctx oper event direct cid target conv l1 b)))"

text \<open>The loop, then the error join and the final observation.\<close>

fun handle_loop ::
  "env \<Rightarrow> go_context \<Rightarrow> operation \<Rightarrow> event \<Rightarrow> bool \<Rightarrow> string set \<Rightarrow> string list \<Rightarrow> handle_locals \<Rightarrow> bus \<Rightarrow>
   err option outcome \<times> bus" where
  "handle_loop env ctx oper event direct excluded [] l b =
     (let r = errors_Join (map Some (hl_deliveryErrors l))
      in (Return r, Bus_observe env (handle_observation (b_config b) oper event direct (hl_deliveryCount l) r) b))"
| "handle_loop env ctx oper event direct excluded (cid # ids) l b =
     (case handle_client env ctx oper event direct excluded cid l b of
        (HNext l1, b1) \<Rightarrow> handle_loop env ctx oper event direct excluded ids l1 b1
      | (HReturn r, b1) \<Rightarrow> (Return r, b1)
      | (HBlocked, b1) \<Rightarrow> (Blocked, b1))"

definition Bus_handle :: "env \<Rightarrow> go_context \<Rightarrow> event \<Rightarrow> operation \<Rightarrow> bus \<Rightarrow> err option outcome \<times> bus" where
  "Bus_handle env ctx event oper b =
     (if b_stopped b then (Return (Some ErrClosed), b)
      else let event1 = normalizeEvent event
           in case validateEvent event1 of
                Some x \<Rightarrow>
                  (Return (Some x),
                   Bus_observe env ((zero_observation oper ''error'')\<lparr>obs_EventName := ev_Name event1, obs_Err := Some x\<rparr>) b)
              | None \<Rightarrow>
                  (let direct = (length (ev_ClientIDs event1) > 0);
                       ids = (if direct then ev_ClientIDs event1
                              else Registry_Subscribers (env_range env (log b)) (ev_Name event1) (b_registry b));
                       excluded = (if direct then {} else set (ev_ExcludeClientIDs event1))
                   in handle_loop env ctx oper event1 direct excluded ids
                        \<lparr>hl_converted = None, hl_deliveryCount = 0, hl_deliveryErrors = []\<rparr> b))"

definition Bus_Publish :: "env \<Rightarrow> go_context option \<Rightarrow> event \<Rightarrow> bus \<Rightarrow> err option outcome \<times> bus" where
  "Bus_Publish env ctx0 event b =
     (let ctx = orBackground ctx0
      in case ctx (log b) of
           Some x \<Rightarrow> (Return (Some x), b)
         | None \<Rightarrow>
             (let event1 = normalizeEvent event
              in case Bus_handle env ctx event1 OperationHandleEvent b of
                   (Blocked, b1) \<Rightarrow> (Blocked, b1)
                 | (Return localErr, b1) \<Rightarrow>
                     if err_is localErr ErrInvalidEvent then (Return localErr, b1)
                     else if b_stopped b1 then (Return (errors_Join [localErr, Some ErrClosed]), b1)
                     else if cfg_distributed (b_config b1) = None then (Return (errors_Join [localErr, None]), b1)
                     else let remoteErr = env_remote env (log b1) event1;
                              b2 = emit (PublishRemoteCall event1 remoteErr) b1;
                              obs = (zero_observation OperationPublishRemote (if remoteErr \<noteq> None then ''error'' else ''success''))
                                      \<lparr>obs_EventName := ev_Name event1, obs_Err := remoteErr\<rparr>
                          in (Return (errors_Join [localErr, remoteErr]), Bus_observe env obs b2)))"

section \<open>Replay\<close>

definition replay_finish ::
  "observation \<Rightarrow> delivery_notification list \<Rightarrow> err list \<Rightarrow> observation \<times> delivery_notification list \<times> err option" where
  "replay_finish obs ns errs =
     (case errors_Join (map Some errs) of
        Some x \<Rightarrow> (obs\<lparr>obs_Outcome := ''error'', obs_Err := Some x\<rparr>, ns, Some x)
      | None \<Rightarrow> (obs\<lparr>obs_Outcome := ''success''\<rparr>, ns, None))"

fun replay_loop ::
  "env \<Rightarrow> go_context \<Rightarrow> string \<Rightarrow> cref \<Rightarrow> nat \<Rightarrow> instant \<Rightarrow> replay_event list \<Rightarrow>
   observation \<Rightarrow> delivery_notification list \<Rightarrow> err list \<Rightarrow> bus \<Rightarrow>
   (observation \<times> delivery_notification list \<times> err option) outcome \<times> bus" where
  "replay_loop env ctx clientID target generation cutoff [] obs ns errs b =
     (Return (replay_finish obs ns errs), b)"
| "replay_loop env ctx clientID target generation cutoff (retained # rest) obs ns errs b =
     (if \<not> client_isActive target b then (Return (replay_finish obs ns errs), b)
      else if re_StoredAt retained < cutoff
      then replay_loop env ctx clientID target generation cutoff rest obs ns errs b
      else let ev = normalizeEvent (re_Event retained)
           in if \<not> Registry_IsSubscribed clientID (ev_Name ev) (b_registry b)
              then replay_loop env ctx clientID target generation cutoff rest obs ns errs b
              else case validateEvent ev of
                     Some x \<Rightarrow> (Return (obs\<lparr>obs_Outcome := ''error'', obs_Err := Some x\<rparr>, ns, Some x), b)
                   | None \<Rightarrow>
                       (case Bus_deliver env ctx
                               (new_client_event clientID ev
                                 (event_message ev (re_ConvertedValue retained) (re_HasConverted retained)) target generation) b of
                          (DeliverBlocked, b1) \<Rightarrow> (Blocked, b1)
                        | (Delivered sent r e1, b1) \<Rightarrow>
                            if err_is r errInactiveClient then (Return (replay_finish obs ns errs), b1)
                            else let ns1 = (if r = None \<or> sent
                                            then ns @ [\<lparr>dn_event = e1, dn_sent = sent, dn_err = r\<rparr>] else ns);
                                     obs1 = obs\<lparr>obs_DeliveryCount := obs_DeliveryCount obs + 1\<rparr>
                                 in case r of
                                      None \<Rightarrow> replay_loop env ctx clientID target generation cutoff rest obs1 ns1 errs b1
                                    | Some x \<Rightarrow>
                                        if cfg_synchronous (b_config b1)
                                        then replay_loop env ctx clientID target generation cutoff rest obs1 ns1
                                               (errs @ [ErrWrap (''replay to client '' @ clientID) x]) b1
                                        else (Return (obs\<lparr>obs_Outcome := ''error'', obs_Err := Some x\<rparr>, ns1, Some x), b1)))"

definition replay_observation :: "string \<Rightarrow> string \<Rightarrow> string \<Rightarrow> observation" where
  "replay_observation outcome clientID lastEventID =
     (zero_observation OperationReplayEvents outcome)
       \<lparr>obs_ClientID := clientID, obs_Replay := True, obs_LastEventIDPresent := lastEventID \<noteq> []\<rparr>"

definition Bus_replayMissedEventsLocked ::
  "env \<Rightarrow> go_context \<Rightarrow> string \<Rightarrow> string \<Rightarrow> bus \<Rightarrow>
   (observation \<times> delivery_notification list \<times> err option) outcome \<times> bus" where
  "Bus_replayMissedEventsLocked env ctx clientID lastEventID b =
     (let obs = replay_observation [] clientID lastEventID
      in case ctx (log b) of
           Some x \<Rightarrow> (Return (obs\<lparr>obs_Outcome := ''error'', obs_Err := Some x\<rparr>, [], Some x), b)
         | None \<Rightarrow>
             if cfg_replayStore (b_config b) = None then (Return (obs\<lparr>obs_Outcome := ''noop''\<rparr>, [], None), b)
             else case b_clients b clientID of
                    None \<Rightarrow> (Return (obs\<lparr>obs_Outcome := ''noop''\<rparr>, [], None), b)
                  | Some target \<Rightarrow>
                      if \<not> client_isActive target b then (Return (obs\<lparr>obs_Outcome := ''noop''\<rparr>, [], None), b)
                      else let generation = wrap_uint64 (replayGeneration (heap b target) + 1);
                               b1 = upd_client target (\<lambda>cl. cl\<lparr>replayGeneration := generation\<rparr>) b;
                               b2 = Bus_removePending target True b1;
                               cutoff = env_now env (log b2) - cfg_replayRetention (b_config b2)
                           in replay_loop env ctx clientID target generation cutoff
                                (ReplayStore_EventsSince clientID lastEventID (b_replayStore b2)) obs [] [] b2)"

definition Bus_ReplayMissedEvents ::
  "env \<Rightarrow> go_context option \<Rightarrow> string \<Rightarrow> string \<Rightarrow> bus \<Rightarrow> err option outcome \<times> bus" where
  "Bus_ReplayMissedEvents env ctx0 clientID lastEventID b =
     (let ctx = orBackground ctx0
      in case ctx (log b) of
           Some x \<Rightarrow>
             (Return (Some x),
              Bus_observe env ((replay_observation ''error'' clientID lastEventID)\<lparr>obs_Err := Some x\<rparr>) b)
         | None \<Rightarrow>
             if b_stopped b then (Return (Some ErrClosed), b)
             else if cfg_replayStore (b_config b) = None
             then (Return None, Bus_observe env (replay_observation ''noop'' clientID lastEventID) b)
             else case Bus_replayMissedEventsLocked env ctx clientID lastEventID b of
                    (Blocked, b1) \<Rightarrow> (Blocked, b1)
                  | (Return (obs, ns, r), b1) \<Rightarrow>
                      (Return r, Bus_observe env obs (Bus_notifyDeliveries env ns b1)))"

section \<open>Registration\<close>

definition alloc_client :: "client \<Rightarrow> bus \<Rightarrow> cref \<times> bus" where
  "alloc_client cl b = (nextRef b, b\<lparr>heap := (heap b)(nextRef b := cl), nextRef := Suc (nextRef b)\<rparr>)"

text \<open>
  \<^verbatim>\<open>RegisterContext\<close> in its phases, between which other operations may run: the checks of its arguments; then,
  with the client's lock, the context again and the first look at the closed flag; the replacement of the previous
  generation and the subscriptions; the second look at the closed flag, which retires the new generation again when
  \<^verbatim>\<open>Close\<close> has begun meanwhile, or installs it and replays.
\<close>

definition register_arguments :: "go_context \<Rightarrow> string \<Rightarrow> connection \<Rightarrow> bus \<Rightarrow> err option" where
  "register_arguments ctx clientID conn b =
     (if clientID = [] then Some ErrInvalidClientID
      else if isNil conn then Some ErrNilConnection
      else ctx (log b))"

definition register_prepare ::
  "env \<Rightarrow> string \<Rightarrow> connection \<Rightarrow> registration_config \<Rightarrow> bus \<Rightarrow> cref \<times> bus" where
  "register_prepare env clientID conn reg b =
     (let (target, b1) = alloc_client
            (zero_client\<lparr>connection := conn, lastTransfer := env_now env (log b),
                         completeAfterMessage := reg_complete reg\<rparr>) b;
          b2 = (case b_clients b clientID of
                  None \<Rightarrow> b1
                | Some existing \<Rightarrow>
                    Bus_removePending existing False (snd (client_replaceWith env existing conn b1)));
          b3 = b2\<lparr>b_registry := register_subscriptions Registry_Subscribe Registry_UnsubscribeAll
                    (Registry_AllEvents (env_range env (log b2))) Registry_Unsubscribe
                    clientID (reg_replace reg) (reg_events reg) (b_registry b2)\<rparr>
      in (target, b3))"

definition register_commit ::
  "env \<Rightarrow> go_context \<Rightarrow> string \<Rightarrow> cref \<Rightarrow> registration_config \<Rightarrow> bus \<Rightarrow> err option outcome \<times> bus" where
  "register_commit env ctx clientID target reg b =
     (if b_closed b then (Return (Some ErrClosed), snd (client_retire env target True b))
      else let b4 = b\<lparr>b_clients := (b_clients b)(clientID \<mapsto> target)\<rparr>;
               obs = (zero_observation OperationRegisterClient ''success'')
                       \<lparr>obs_ClientID := clientID, obs_CompleteAfterMessage := reg_complete reg\<rparr>
           in if \<not> reg_replay reg then (Return None, Bus_observe env obs b4)
              else case Bus_replayMissedEventsLocked env ctx clientID (reg_lastEventID reg) b4 of
                     (Blocked, b5) \<Rightarrow> (Blocked, b5)
                   | (Return (robs, ns, r), b5) \<Rightarrow>
                       (Return r, Bus_observe env robs
                          (Bus_notifyDeliveries env ns (Bus_observe env obs b5))))"

definition register_locked ::
  "env \<Rightarrow> go_context \<Rightarrow> string \<Rightarrow> connection \<Rightarrow> registration_config \<Rightarrow> bus \<Rightarrow> err option outcome \<times> bus" where
  "register_locked env ctx clientID conn reg b =
     (case ctx (log b) of
        Some x \<Rightarrow> (Return (Some x), b)
      | None \<Rightarrow>
          if b_closed b then (Return (Some ErrClosed), b)
          else let (target, b3) = register_prepare env clientID conn reg b
               in register_commit env ctx clientID target reg b3)"

definition Bus_RegisterContext ::
  "env \<Rightarrow> go_context option \<Rightarrow> string \<Rightarrow> connection \<Rightarrow> registration_option option list \<Rightarrow> bus \<Rightarrow>
   err option outcome \<times> bus" where
  "Bus_RegisterContext env ctx0 clientID conn options b =
     (let ctx = orBackground ctx0
      in case register_arguments ctx clientID conn b of
           Some x \<Rightarrow> (Return (Some x), b)
         | None \<Rightarrow> register_locked env ctx clientID conn (apply_registration options zero_registration) b)"

lemmas RegisterContext_unfold = Bus_RegisterContext_def register_arguments_def register_locked_def register_prepare_def register_commit_def

definition Bus_Register ::
  "env \<Rightarrow> string \<Rightarrow> connection \<Rightarrow> registration_option option list \<Rightarrow> bus \<Rightarrow> err option outcome \<times> bus" where
  "Bus_Register env clientID conn options b = Bus_RegisterContext env (Some Background) clientID conn options b"

definition Bus_Disconnect :: "env \<Rightarrow> string \<Rightarrow> connection \<Rightarrow> bus \<Rightarrow> bool \<times> bus" where
  "Bus_Disconnect env clientID conn b =
     (if isNil conn then (False, b)
      else case b_clients b clientID of
             None \<Rightarrow> (False, b)
           | Some target \<Rightarrow>
               if \<not> sameConnection (connection (heap b target)) conn then (False, b)
               else if b_clients b clientID \<noteq> Some target then (False, b)
               else (True, Bus_removePending target False (snd (client_retire env target True b))))"

definition Bus_unregister ::
  "env \<Rightarrow> string \<Rightarrow> cref option \<Rightarrow> instant option \<Rightarrow> bool \<Rightarrow> bus \<Rightarrow> bool \<times> bus" where
  "Bus_unregister env clientID expected staleBefore observeNoop b =
     (let removed = b_clients b clientID
      in if expected \<noteq> None \<and> removed \<noteq> expected then (False, b)
         else case removed of
                None \<Rightarrow>
                  (False, if observeNoop
                          then Bus_observe env ((zero_observation OperationUnregisterClient ''noop'')\<lparr>obs_ClientID := clientID\<rparr>) b
                          else b)
              | Some c \<Rightarrow>
                  if (case staleBefore of None \<Rightarrow> False | Some t \<Rightarrow> \<not> client_lastSeen c b < t) then (False, b)
                  else let b1 = b\<lparr>b_clients := (b_clients b)(clientID := None)\<rparr>;
                           b2 = b1\<lparr>b_registry := Registry_UnsubscribeAll clientID (b_registry b1)\<rparr>;
                           b3 = Bus_removePending c False b2;
                           b4 = (if cfg_replayStore (b_config b3) \<noteq> None
                                 then b3\<lparr>b_replayStore := ReplayStore_ClearClient clientID (b_replayStore b3)\<rparr> else b3);
                           (closeErr, b5) = client_retire env c True b4;
                           obs = (zero_observation OperationUnregisterClient (if closeErr \<noteq> None then ''error'' else ''success''))
                                   \<lparr>obs_ClientID := clientID, obs_Err := closeErr\<rparr>
                       in (True, Bus_observe env obs b5))"

definition Bus_Unregister :: "env \<Rightarrow> string \<Rightarrow> bus \<Rightarrow> bool \<times> bus" where
  "Bus_Unregister env clientID b = Bus_unregister env clientID None None True b"

section \<open>Queries\<close>

definition Bus_IsClientRegistered :: "string \<Rightarrow> bus \<Rightarrow> bool" where
  "Bus_IsClientRegistered clientID b \<longleftrightarrow> b_clients b clientID \<noteq> None"

definition Bus_ClientIDs :: "env \<Rightarrow> bus \<Rightarrow> string list" where
  "Bus_ClientIDs env b = sort (env_range env (log b) (dom (b_clients b)))"

definition Bus_Events :: "env \<Rightarrow> bus \<Rightarrow> string list" where
  "Bus_Events env b = sort (Registry_AllEvents (env_range env (log b)) (b_registry b))"

definition Bus_Subscriptions :: "env \<Rightarrow> bus \<Rightarrow> (string \<rightharpoonup> string list)" where
  "Bus_Subscriptions env b =
     (\<lambda>event. map_option sort (Registry_AllSubscriptions (env_range env (log b)) (b_registry b) event))"

definition Bus_Subscribers :: "env \<Rightarrow> string \<Rightarrow> bus \<Rightarrow> string list" where
  "Bus_Subscribers env event b = sort (Registry_Subscribers (env_range env (log b)) event (b_registry b))"

definition Bus_CountSubscribers :: "string \<Rightarrow> bus \<Rightarrow> nat" where
  "Bus_CountSubscribers event b = Registry_CountSubscribers event (b_registry b)"

definition Bus_HasSubscribers :: "string \<Rightarrow> bus \<Rightarrow> bool" where
  "Bus_HasSubscribers event b = Registry_HasSubscribers event (b_registry b)"

definition Bus_ClientCount :: "bus \<Rightarrow> nat" where
  "Bus_ClientCount b = card (dom (b_clients b))"

definition Bus_SendQueueSize :: "bus \<Rightarrow> int" where
  "Bus_SendQueueSize b = eventQueue_len (b_sendQueue b)"

definition Bus_RetryQueueSize :: "bus \<Rightarrow> int" where
  "Bus_RetryQueueSize b = retryQueue_len (b_retryQueue b)"

definition Bus_ErrorQueueSize :: "bus \<Rightarrow> int" where
  "Bus_ErrorQueueSize b = Bus_RetryQueueSize b"

end
