(* ===== verification/Bus_Loops.thy ===== *)
theory Bus_Loops
  imports Bus
begin

text \<open>
  The goroutines of \<^verbatim>\<open>bus.go\<close>, each as its rounds: \<^verbatim>\<open>attempt\<close> and \<^verbatim>\<open>worker\<close> with
  \<^verbatim>\<open>waitForRetry\<close>, \<^verbatim>\<open>retryLoop\<close>, the three tickers (\<^verbatim>\<open>expirationLoop\<close>,
  \<^verbatim>\<open>heartbeatLoop\<close>, \<^verbatim>\<open>replayCleanupLoop\<close>), the removal goroutine that an exhausted event
  starts, and \<^verbatim>\<open>Close\<close> with the flush it runs after every goroutine has ended. A goroutine's
  state says where in its loop it stands; \<^const>\<open>None\<close> means it cannot move now.
\<close>

section \<open>Attempting a send\<close>

text \<open>The attempts are used up: the client is retired, and a goroutine will remove it.\<close>

definition exhaust_client :: "client_event \<Rightarrow> bus \<Rightarrow> bus" where
  "exhaust_client e b =
     (if \<not> inactive (heap b (ce_client e))
      then (upd_client (ce_client e) (\<lambda>cl. cl\<lparr>inactive := True\<rparr>) b)
             \<lparr>b_removals := b_removals b @ [(ce_ClientID e, ce_client e)]\<rparr>
      else b)"

definition Bus_attempt :: "env \<Rightarrow> client_event \<Rightarrow> bus \<Rightarrow> (bool \<times> client_event) \<times> bus" where
  "Bus_attempt env e b =
     (if \<not> Bus_isCurrentEvent e b \<or> \<not> client_isActive (ce_client e) b then ((False, e), b)
      else if ClientEvent_Attempts e < cfg_attempts (b_config b)
      then (case Bus_send env e b of
              ((attempted, r, e1), b1) \<Rightarrow>
                if \<not> attempted then ((False, e1), b1)
                else let b2 = Bus_notifySent env e1 r b1
                     in if r = None \<or> \<not> Bus_isCurrentEvent e1 b2 \<or> \<not> client_isActive (ce_client e1) b2
                        then ((False, e1), b2)
                        else if ClientEvent_Attempts e1 < cfg_attempts (b_config b2) then ((True, e1), b2)
                        else ((False, e1), exhaust_client e1 b2))
      else ((False, e), exhaust_client e b))"

text \<open>The goroutine started by \<^verbatim>\<open>attempt\<close>.\<close>

definition removal_round :: "env \<Rightarrow> string \<times> cref \<Rightarrow> bus \<Rightarrow> bus" where
  "removal_round env rem b =
     (let b0 = b\<lparr>b_removals := remove1 rem (b_removals b)\<rparr>
      in case Bus_unregister env (fst rem) (Some (snd rem)) None False b0 of
           (True, b1) \<Rightarrow> Bus_notifyUnregistered env [fst rem] b1
         | (False, b1) \<Rightarrow> b1)"

section \<open>Workers\<close>

text \<open>Where a worker stands: about to pop, holding a popped event and waiting for its turn,
  holding the turn, holding a retry the full retry queue handed back, or ended.\<close>

datatype worker = WIdle | WTurn client_event | WHolding client_event | WPending client_event | WExited

text \<open>One round of \<^verbatim>\<open>waitForRetry\<close> at a given time: the result, or the time to sleep.\<close>

datatype retry_wait = WaitResult bool | WaitSleep duration

definition Bus_waitForRetry :: "env \<Rightarrow> client_event \<Rightarrow> bus \<Rightarrow> retry_wait" where
  "Bus_waitForRetry env e b =
     (if \<not> (Bus_isCurrentEvent e b \<and> client_isActive (ce_client e) b) then WaitResult False
      else if b_stopped b then WaitResult False
      else let delay = ce_retryAfter e - env_now env (log b)
           in if delay \<le> 0 then WaitResult True else WaitSleep (min delay (cfg_schedulerDelay (b_config b))))"

text \<open>After an attempt: a retry gets its due time and goes to the retry queue, which may hand an
  earlier one back; a closed retry queue ends the worker.\<close>

definition worker_reschedule :: "env \<Rightarrow> bool \<Rightarrow> client_event \<Rightarrow> bus \<Rightarrow> worker \<times> bus" where
  "worker_reschedule env retry e b =
     (if \<not> retry then (WIdle, b)
      else let e1 = e\<lparr>ce_retryAfter := env_now env (log b) + retry_delay (b_config b) e\<rparr>
           in case retryQueue_schedule e1 (b_retryQueue b) of
                ((p, Some x), q) \<Rightarrow> (WExited, b\<lparr>b_retryQueue := q\<rparr>)
              | ((Some p, None), q) \<Rightarrow> (WPending p, b\<lparr>b_retryQueue := q\<rparr>)
              | ((None, None), q) \<Rightarrow> (WIdle, b\<lparr>b_retryQueue := q\<rparr>))"

definition worker_round :: "env \<Rightarrow> worker \<Rightarrow> bus \<Rightarrow> (worker \<times> bus) option" where
  "worker_round env w b =
     (case w of
        WIdle \<Rightarrow>
          (case eventQueue_pop (b_sendQueue b) of
             (PopClosed, q) \<Rightarrow> Some (WExited, b)
           | (Popped (Some e), q) \<Rightarrow> Some (WTurn e, b\<lparr>b_sendQueue := q\<rparr>)
           | (Popped None, q) \<Rightarrow> None
           | (PopWait, q) \<Rightarrow> None)
      | WTurn e \<Rightarrow>
          (case client_waitForTurn (ce_sendOrder e) (heap b (ce_client e)) of
             None \<Rightarrow> None
           | Some False \<Rightarrow> Some (WIdle, b)
           | Some True \<Rightarrow> Some (WHolding e, b))
      | WHolding e \<Rightarrow>
          (case Bus_attempt env e b of
             ((retry, e1), b1) \<Rightarrow>
               Some (worker_reschedule env retry e1 (upd_client (ce_client e) (client_finishTurn (ce_sendOrder e)) b1)))
      | WPending e \<Rightarrow>
          (case Bus_waitForRetry env e b of
             WaitResult False \<Rightarrow> Some (WIdle, b)
           | WaitResult True \<Rightarrow>
               (case Bus_attempt env e (Bus_notifyQueued env e False b) of
                  ((retry, e1), b1) \<Rightarrow> Some (worker_reschedule env retry e1 b1))
           | WaitSleep d \<Rightarrow> None)
      | WExited \<Rightarrow> None)"

section \<open>The retry scheduler\<close>

datatype scheduler = SIdle | SHolding client_event | SExited

definition retryLoop_round :: "env \<Rightarrow> scheduler \<Rightarrow> bus \<Rightarrow> (scheduler \<times> bus) option" where
  "retryLoop_round env s b =
     (case s of
        SIdle \<Rightarrow>
          (case retryQueue_popDue (env_now env (log b)) (b_retryQueue b) of
             ((ev, nxt, False), q) \<Rightarrow> Some (SExited, b)
           | ((Some e, nxt, True), q) \<Rightarrow>
               (let b1 = b\<lparr>b_retryQueue := q\<rparr>
                in if Bus_isCurrentEvent e b1 then Some (SHolding e, b1) else Some (SIdle, b1))
           | ((None, nxt, True), q) \<Rightarrow> if b_stopped b then Some (SExited, b) else None)
      | SHolding e \<Rightarrow>
          (case eventQueue_push Background e (b_sendQueue b) b of
             (PushErr x, q, b1) \<Rightarrow> Some (SExited, b1)
           | (Pushed e1, q, b1) \<Rightarrow> Some (SIdle, Bus_notifyQueued env e1 False (b1\<lparr>b_sendQueue := q\<rparr>))
           | (PushWait, q, b1) \<Rightarrow> None)
      | SExited \<Rightarrow> None)"

section \<open>Tickers\<close>

definition expiration_round :: "env \<Rightarrow> instant \<Rightarrow> bus \<Rightarrow> bus" where
  "expiration_round env now b =
     (let cutoff = now - cfg_expiration (b_config b);
          stale = filter (\<lambda>cid. case b_clients b cid of None \<Rightarrow> False | Some c \<Rightarrow> client_lastSeen c b < cutoff)
                    (env_range env (log b) (dom (b_clients b)));
          (removed, b1) = fold (\<lambda>cid (removed, b).
             case Bus_unregister env cid None (Some cutoff) False b of
               (True, b') \<Rightarrow> (removed @ [cid], b')
             | (False, b') \<Rightarrow> (removed, b')) stale ([], b)
      in if length removed > 0 then Bus_notifyUnregistered env removed b1 else b1)"

definition heartbeat_message :: "config \<Rightarrow> message" where
  "heartbeat_message cfg =
     \<lparr>msg_Event = [], msg_Data = [], msg_HasData = False, msg_Retry = 0, msg_ID = [],
      msg_Comment = cfg_heartbeatComment cfg\<rparr>"

definition heartbeat_round :: "env \<Rightarrow> bus \<Rightarrow> bus" where
  "heartbeat_round env b =
     fold (\<lambda>cid b'. case b_clients b cid of
              None \<Rightarrow> b'
            | Some c \<Rightarrow> snd (client_heartbeat env (heartbeat_message (b_config b)) c b'))
       (env_range env (log b) (dom (b_clients b))) b"

definition replayCleanup_round :: "instant \<Rightarrow> bus \<Rightarrow> bus" where
  "replayCleanup_round now b =
     b\<lparr>b_replayStore := ReplayStore_PurgeExpired (now - cfg_replayRetention (b_config b)) (b_replayStore b)\<rparr>"

section \<open>Close\<close>

text \<open>The body that \<^verbatim>\<open>closeOnce\<close> runs at most once, up to the shutdown goroutine: four critical sections,
  between which other operations may run.\<close>

definition close_flag :: "bus \<Rightarrow> bus" where
  "close_flag b = b\<lparr>b_closed := True\<rparr>"

definition close_sendQueue :: "bus \<Rightarrow> bus" where
  "close_sendQueue b = b\<lparr>b_sendQueue := eventQueue_close (b_sendQueue b)\<rparr>"

definition close_retryQueue :: "bus \<Rightarrow> bus" where
  "close_retryQueue b = b\<lparr>b_retryQueue := retryQueue_close (b_retryQueue b)\<rparr>"

definition close_stop :: "bus \<Rightarrow> bus" where
  "close_stop b = b\<lparr>b_stopped := True\<rparr>"

definition Bus_beginClose :: "bus \<Rightarrow> bus" where
  "Bus_beginClose b =
     (if b_closed b then b else close_stop (close_retryQueue (close_sendQueue (close_flag b))))"

lemmas beginClose_unfold = Bus_beginClose_def close_flag_def close_sendQueue_def close_retryQueue_def close_stop_def

text \<open>Flushing one drained event: \<^const>\<open>None\<close> is a turn that never comes.\<close>

definition flush_event :: "env \<Rightarrow> client_event \<Rightarrow> bus \<Rightarrow> (err list \<times> bus) option" where
  "flush_event env e b =
     (case client_waitForTurn (ce_sendOrder e) (heap b (ce_client e)) of
        None \<Rightarrow> None
      | Some False \<Rightarrow> Some ([], b)
      | Some True \<Rightarrow>
          (let (errs, b1) =
             (if Bus_isCurrentEvent e b \<and> ClientEvent_Attempts e < cfg_attempts (b_config b)
              then (case Bus_send env e b of
                      ((attempted, r, e1), b') \<Rightarrow>
                        (let b'' = (if attempted then Bus_notifySent env e1 r b' else b')
                         in (if attempted then (case r of None \<Rightarrow> [] | Some x \<Rightarrow> [ErrWrap (''flush event for client '' @ ce_ClientID e) x]) else [],
                             b'')))
              else ([], b))
           in Some (errs, upd_client (ce_client e) (client_finishTurn (ce_sendOrder e)) b1)))"

fun flush_loop :: "env \<Rightarrow> client_event option list \<Rightarrow> bus \<Rightarrow> (err list \<times> bus) option" where
  "flush_loop env [] b = Some ([], b)"
| "flush_loop env (None # es) b = None"
| "flush_loop env (Some e # es) b =
     (case flush_event env e b of
        None \<Rightarrow> None
      | Some (errs, b1) \<Rightarrow> (case flush_loop env es b1 of None \<Rightarrow> None | Some (errs', b2) \<Rightarrow> Some (errs @ errs', b2)))"

definition retire_all :: "env \<Rightarrow> string list \<Rightarrow> bus \<Rightarrow> err list \<times> bus" where
  "retire_all env ids b =
     fold (\<lambda>cid (errs, b'). case b_clients b cid of
              None \<Rightarrow> (errs, b')
            | Some c \<Rightarrow> (case client_retire env c True b' of
                           (None, b'') \<Rightarrow> (errs, b'')
                         | (Some x, b'') \<Rightarrow> (errs @ [ErrWrap (''close client '' @ cid) x], b'')))
       ids ([], b)"

text \<open>The shutdown goroutine, once \<^verbatim>\<open>wg.Wait\<close> has returned.\<close>

definition Bus_shutdown :: "env \<Rightarrow> bus \<Rightarrow> bus option" where
  "Bus_shutdown env b =
     (let b1 = b\<lparr>b_retryQueue := retryQueue_clear (b_retryQueue b)\<rparr>;
          (events, q) = eventQueue_drain (b_sendQueue b1);
          b2 = b1\<lparr>b_sendQueue := q\<rparr>
      in case flush_loop env events b2 of
           None \<Rightarrow> None
         | Some (errs, b3) \<Rightarrow>
             (let (errs', b4) = retire_all env (env_range env (log b3) (dom (b_clients b3))) b3
              in Some (b4\<lparr>b_shutdownErr := errors_Join (map Some (errs @ errs')), b_shutdownDone := True\<rparr>)))"

text \<open>What \<^verbatim>\<open>Close\<close> returns once it has started or joined the shutdown.\<close>

definition Bus_closeResult :: "go_context option \<Rightarrow> bus \<Rightarrow> err option outcome" where
  "Bus_closeResult ctx b =
     (if b_shutdownDone b then Return (b_shutdownErr b)
      else case orBackground ctx (log b) of Some x \<Rightarrow> Return (Some x) | None \<Rightarrow> Blocked)"

text \<open>\<^verbatim>\<open>Close\<close>: the first call begins the shutdown, every call waits for its end or for its own context. A
  call that finds the body of \<^verbatim>\<open>closeOnce\<close> still running waits for it first.\<close>

definition Bus_Close :: "go_context option \<Rightarrow> bus \<Rightarrow> err option outcome \<times> bus" where
  "Bus_Close ctx b =
     (if b_closed b \<and> \<not> b_stopped b then (Blocked, b)
      else let b1 = Bus_beginClose b in (Bus_closeResult ctx b1, b1))"

lemma Bus_Close_again:
  "b_stopped (snd (Bus_Close ctx' b)) \<Longrightarrow>
   Bus_Close ctx (snd (Bus_Close ctx' b)) = (Bus_closeResult ctx (snd (Bus_Close ctx' b)), snd (Bus_Close ctx' b))"
  by (simp add: Bus_Close_def beginClose_unfold Let_def split: if_splits)

end
