(* ===== verification/Bus_Inv.thy ===== *)
theory Bus_Inv
  imports Bus
begin

text \<open>
  The invariant of the bus and its preservation by every operation of theory \<open>Bus\<close>. It joins the
  invariants of the parts (lifecycle of every client generation, send queue, retry queue,
  registry, replay store, configuration) with what relates them: references point to
  allocated clients, two IDs never share one, the closed flags are set in the order in which \<^verbatim>\<open>Close\<close> sets them, and the tickets of each
  client are the send orders in the queue and in the workers' hands.
\<close>

section \<open>The invariant\<close>

definition refs_ok :: "bus \<Rightarrow> bool" where
  "refs_ok b \<longleftrightarrow>
     (\<forall>cid c. b_clients b cid = Some c \<longrightarrow> c < nextRef b) \<and>
     (\<forall>cid cid' c. b_clients b cid = Some c \<longrightarrow> b_clients b cid' = Some c \<longrightarrow> cid = cid') \<and>
     (\<forall>e \<in> set (rq_items (b_retryQueue b)). ce_client e < nextRef b) \<and>
     (\<forall>p \<in> set (b_removals b). snd p < nextRef b)"

definition parts_ok :: "bus \<Rightarrow> bool" where
  "parts_ok b \<longleftrightarrow> queue_ok (b_sendQueue b) \<and> retry_queue_ok (b_retryQueue b) \<and>
     registry_ok (b_registry b) \<and> store_ok (b_replayStore b) \<and> config_ok (b_config b) \<and>
     finite (dom (b_clients b)) \<and>
     eq_capacity (b_sendQueue b) = cfg_sendCapacity (b_config b) \<and>
     rq_capacity (b_retryQueue b) = cfg_retryCapacity (b_config b) \<and>
     (b_stopped b \<longrightarrow> rq_closed (b_retryQueue b)) \<and> (rq_closed (b_retryQueue b) \<longrightarrow> eq_closed (b_sendQueue b)) \<and>
     (eq_closed (b_sendQueue b) \<longrightarrow> b_closed b)"

definition bus_inv :: "hands \<Rightarrow> bus \<Rightarrow> bool" where
  "bus_inv held b \<longleftrightarrow> world_inv b \<and> parts_ok b \<and> refs_ok b \<and> tickets_ok held (queued (b_sendQueue b)) b"

lemma bus_invI:
  "world_inv b \<Longrightarrow> parts_ok b \<Longrightarrow> refs_ok b \<Longrightarrow> tickets_ok held (queued (b_sendQueue b)) b \<Longrightarrow> bus_inv held b"
  by (simp add: bus_inv_def)

lemma bus_invD:
  assumes "bus_inv held b"
  shows "world_inv b" "parts_ok b" "refs_ok b" "tickets_ok held (queued (b_sendQueue b)) b"
  using assms by (simp_all add: bus_inv_def)

lemma bus_inv_client: "bus_inv held b \<Longrightarrow> b_clients b cid = Some c \<Longrightarrow> c < nextRef b"
  by (auto simp: bus_inv_def refs_ok_def)

section \<open>Frames\<close>

text \<open>The fields of the bus other than the heap and the log.\<close>

definition bus_frame :: "bus \<Rightarrow> bus \<Rightarrow> bool" where
  "bus_frame b b' \<longleftrightarrow> b_config b' = b_config b \<and> b_clients b' = b_clients b \<and> b_sendQueue b' = b_sendQueue b \<and>
     b_retryQueue b' = b_retryQueue b \<and> b_registry b' = b_registry b \<and> b_replayStore b' = b_replayStore b \<and>
     b_closed b' = b_closed b \<and> b_stopped b' = b_stopped b \<and> b_shutdownErr b' = b_shutdownErr b \<and>
     b_shutdownDone b' = b_shutdownDone b \<and> b_removals b' = b_removals b"

lemma bus_frame_more: "world.more b' = world.more b \<Longrightarrow> bus_frame b b'"
  by (cases b; cases b') (simp add: bus_frame_def)

lemma bus_frame_trans: "bus_frame a b \<Longrightarrow> bus_frame b c \<Longrightarrow> bus_frame a c"
  by (simp add: bus_frame_def)

lemma bus_frame_refl [simp]: "bus_frame b b"
  by (simp add: bus_frame_def)

lemma bus_emit_simps [simp]:
  "b_config (emit x b) = b_config b" "b_clients (emit x b) = b_clients b" "b_sendQueue (emit x b) = b_sendQueue b"
  "b_retryQueue (emit x b) = b_retryQueue b" "b_registry (emit x b) = b_registry b"
  "b_replayStore (emit x b) = b_replayStore b" "b_closed (emit x b) = b_closed b" "b_stopped (emit x b) = b_stopped b"
  "b_removals (emit x b) = b_removals b" "b_shutdownErr (emit x b) = b_shutdownErr b"
  "b_shutdownDone (emit x b) = b_shutdownDone b"
  by (simp_all add: emit_def)

lemma bus_upd_client_simps [simp]:
  "b_config (upd_client c f b) = b_config b" "b_clients (upd_client c f b) = b_clients b"
  "b_sendQueue (upd_client c f b) = b_sendQueue b" "b_retryQueue (upd_client c f b) = b_retryQueue b"
  "b_registry (upd_client c f b) = b_registry b" "b_replayStore (upd_client c f b) = b_replayStore b"
  "b_closed (upd_client c f b) = b_closed b" "b_stopped (upd_client c f b) = b_stopped b"
  "b_removals (upd_client c f b) = b_removals b" "b_shutdownErr (upd_client c f b) = b_shutdownErr b"
  "b_shutdownDone (upd_client c f b) = b_shutdownDone b"
  by (simp_all add: upd_client_def)

text \<open>Updates of the other fields leave the client heap and the log alone.\<close>

lemma world_inv_fields [simp]:
  "world_inv (b\<lparr>b_config := v_config\<rparr>) = world_inv b"
  "world_inv (b\<lparr>b_clients := v_clients\<rparr>) = world_inv b"
  "world_inv (b\<lparr>b_sendQueue := v_sendQueue\<rparr>) = world_inv b"
  "world_inv (b\<lparr>b_retryQueue := v_retryQueue\<rparr>) = world_inv b"
  "world_inv (b\<lparr>b_registry := v_registry\<rparr>) = world_inv b"
  "world_inv (b\<lparr>b_replayStore := v_replayStore\<rparr>) = world_inv b"
  "world_inv (b\<lparr>b_closed := v_closed\<rparr>) = world_inv b"
  "world_inv (b\<lparr>b_stopped := v_stopped\<rparr>) = world_inv b"
  "world_inv (b\<lparr>b_shutdownErr := v_shutdownErr\<rparr>) = world_inv b"
  "world_inv (b\<lparr>b_shutdownDone := v_shutdownDone\<rparr>) = world_inv b"
  "world_inv (b\<lparr>b_removals := v_removals\<rparr>) = world_inv b"
  by (simp_all add: world_inv_def)

lemma tickets_ok_fields [simp]:
  "tickets_ok held es (b\<lparr>b_config := v_config\<rparr>) = tickets_ok held es b"
  "tickets_ok held es (b\<lparr>b_clients := v_clients\<rparr>) = tickets_ok held es b"
  "tickets_ok held es (b\<lparr>b_sendQueue := v_sendQueue\<rparr>) = tickets_ok held es b"
  "tickets_ok held es (b\<lparr>b_retryQueue := v_retryQueue\<rparr>) = tickets_ok held es b"
  "tickets_ok held es (b\<lparr>b_registry := v_registry\<rparr>) = tickets_ok held es b"
  "tickets_ok held es (b\<lparr>b_replayStore := v_replayStore\<rparr>) = tickets_ok held es b"
  "tickets_ok held es (b\<lparr>b_closed := v_closed\<rparr>) = tickets_ok held es b"
  "tickets_ok held es (b\<lparr>b_stopped := v_stopped\<rparr>) = tickets_ok held es b"
  "tickets_ok held es (b\<lparr>b_shutdownErr := v_shutdownErr\<rparr>) = tickets_ok held es b"
  "tickets_ok held es (b\<lparr>b_shutdownDone := v_shutdownDone\<rparr>) = tickets_ok held es b"
  "tickets_ok held es (b\<lparr>b_removals := v_removals\<rparr>) = tickets_ok held es b"
  by (simp_all add: tickets_ok_def)

lemma life_at_fields [simp]:
  "life_at (b\<lparr>b_config := v_config\<rparr>) = life_at b"
  "life_at (b\<lparr>b_clients := v_clients\<rparr>) = life_at b"
  "life_at (b\<lparr>b_sendQueue := v_sendQueue\<rparr>) = life_at b"
  "life_at (b\<lparr>b_retryQueue := v_retryQueue\<rparr>) = life_at b"
  "life_at (b\<lparr>b_registry := v_registry\<rparr>) = life_at b"
  "life_at (b\<lparr>b_replayStore := v_replayStore\<rparr>) = life_at b"
  "life_at (b\<lparr>b_closed := v_closed\<rparr>) = life_at b"
  "life_at (b\<lparr>b_stopped := v_stopped\<rparr>) = life_at b"
  "life_at (b\<lparr>b_shutdownErr := v_shutdownErr\<rparr>) = life_at b"
  "life_at (b\<lparr>b_shutdownDone := v_shutdownDone\<rparr>) = life_at b"
  "life_at (b\<lparr>b_removals := v_removals\<rparr>) = life_at b"
  by (simp_all add: life_at_def fun_eq_iff)

lemma isActive_fields [simp]:
  "client_isActive c (b\<lparr>b_config := v_config\<rparr>) = client_isActive c b"
  "client_isActive c (b\<lparr>b_clients := v_clients\<rparr>) = client_isActive c b"
  "client_isActive c (b\<lparr>b_sendQueue := v_sendQueue\<rparr>) = client_isActive c b"
  "client_isActive c (b\<lparr>b_retryQueue := v_retryQueue\<rparr>) = client_isActive c b"
  "client_isActive c (b\<lparr>b_registry := v_registry\<rparr>) = client_isActive c b"
  "client_isActive c (b\<lparr>b_replayStore := v_replayStore\<rparr>) = client_isActive c b"
  "client_isActive c (b\<lparr>b_closed := v_closed\<rparr>) = client_isActive c b"
  "client_isActive c (b\<lparr>b_stopped := v_stopped\<rparr>) = client_isActive c b"
  "client_isActive c (b\<lparr>b_shutdownErr := v_shutdownErr\<rparr>) = client_isActive c b"
  "client_isActive c (b\<lparr>b_shutdownDone := v_shutdownDone\<rparr>) = client_isActive c b"
  "client_isActive c (b\<lparr>b_removals := v_removals\<rparr>) = client_isActive c b"
  by (simp_all add: client_isActive_def)

text \<open>A change of the clients' life only: everything else follows.\<close>

lemma bus_inv_life:
  assumes "bus_inv held b" "world_inv b'" "nextRef b' = nextRef b" "turns_at b' = turns_at b" "bus_frame b b'"
  shows "bus_inv held b'"
proof (rule bus_invI [OF assms(2)])
  show "parts_ok b'" "refs_ok b'"
    using assms by (simp_all add: bus_inv_def parts_ok_def refs_ok_def bus_frame_def)
  show "tickets_ok held (queued (b_sendQueue b')) b'"
    using tickets_ok_turns [OF bus_invD(4) [OF assms(1)] assms(3,4)] assms(5) by (simp add: bus_frame_def)
qed

text \<open>Extension calls change nothing but the log.\<close>

definition log_only :: "bus \<Rightarrow> bus \<Rightarrow> bool" where
  "log_only b b' \<longleftrightarrow> (\<exists>xs. (\<forall>x \<in> set xs. ref_of x = None) \<and> b' = b\<lparr>log := log b @ xs\<rparr>)"

lemma log_only_refl [simp]: "log_only b b"
  unfolding log_only_def by (rule exI [of _ "[]"]) simp

lemma log_only_trans: "log_only a b \<Longrightarrow> log_only b c \<Longrightarrow> log_only a c"
  unfolding log_only_def by (elim exE conjE, rule_tac x = "xs @ xsa" in exI) auto

lemma log_only_emit [simp]: "ref_of x = None \<Longrightarrow> log_only b (emit x b)"
  unfolding log_only_def emit_def by (rule exI [of _ "[x]"]) simp

lemma log_only_call [simp]: "ref_of x = None \<Longrightarrow> log_only b (call_extension env x b)"
  unfolding call_extension_def
  by (auto intro: log_only_trans [OF log_only_emit log_only_emit])

lemma log_only_observe [simp]: "log_only b (Bus_observe env obs b)"
  by (simp add: Bus_observe_def)

lemma log_only_notifyQueued [simp]: "log_only b (Bus_notifyQueued env e f b)"
  by (simp add: Bus_notifyQueued_def)

lemma log_only_notifySent [simp]: "log_only b (Bus_notifySent env e r b)"
  unfolding Bus_notifySent_def Let_def by (rule log_only_trans [OF log_only_observe log_only_call]) simp

lemma log_only_notifyUnregistered [simp]: "log_only b (Bus_notifyUnregistered env ids b)"
  by (simp add: Bus_notifyUnregistered_def)

lemma log_only_notifyDeliveries [simp]: "log_only b (Bus_notifyDeliveries env ns b)"
  unfolding Bus_notifyDeliveries_def
proof (induction ns arbitrary: b)
  case (Cons n ns)
  let ?f = "\<lambda>n b. let b1 = Bus_notifyQueued env (dn_event n) True b
      in if dn_sent n then Bus_notifySent env (dn_event n) (dn_err n) b1 else b1"
  have "log_only b (?f n b)"
    unfolding Let_def by (auto intro: log_only_trans [OF log_only_notifyQueued log_only_notifySent])
  then show ?case using log_only_trans [OF _ Cons.IH] by simp
qed simp

lemma log_only_fields:
  assumes "log_only b b'"
  shows "bus_frame b b'" "heap b' = heap b" "nextRef b' = nextRef b"
  using assms by (auto simp: log_only_def bus_frame_def)

lemma world_inv_log_only:
  assumes "world_inv b" "log_only b b'"
  shows "world_inv b'"
proof -
  obtain xs where xs: "\<forall>x \<in> set xs. ref_of x = None" "b' = b\<lparr>log := log b @ xs\<rparr>"
    using assms(2) by (auto simp: log_only_def)
  then have "\<not> closes_of c x \<and> \<not> delivers_of c x" if "x \<in> set xs" for x c
    using that by (cases x) auto
  then have "close_count c (log b @ xs) = close_count c (log b)" "delivery_count c (log b @ xs) = delivery_count c (log b)" for c
    by (simp_all add: close_count_def delivery_count_def)
  then show ?thesis using assms(1) xs by (auto simp: world_inv_def client_inv_def)
qed

lemma bus_inv_log_only:
  assumes "bus_inv held b" "log_only b b'"
  shows "bus_inv held b'"
proof (rule bus_inv_life [OF assms(1)])
  show "world_inv b'" using world_inv_log_only [OF bus_invD(1) [OF assms(1)] assms(2)] .
  show "turns_at b' = turns_at b" using log_only_fields(2) [OF assms(2)] by (simp add: turns_at_def fun_eq_iff)
qed (use log_only_fields [OF assms(2)] in simp_all)

text \<open>How many more orders each client can still give out.\<close>

definition orders_room :: "nat \<Rightarrow> bus \<Rightarrow> bool" where
  "orders_room n b \<longleftrightarrow> (\<forall>c < nextRef b. nextOrder (heap b c) + n < max_uint64)"

definition inv_room :: "hands \<Rightarrow> nat \<Rightarrow> bus \<Rightarrow> bool" where
  "inv_room held n b \<longleftrightarrow> bus_inv held b \<and> orders_room n b"

lemma orders_room_fields [simp]:
  "orders_room n (b\<lparr>b_config := v_config\<rparr>) = orders_room n b"
  "orders_room n (b\<lparr>b_clients := v_clients\<rparr>) = orders_room n b"
  "orders_room n (b\<lparr>b_sendQueue := v_sendQueue\<rparr>) = orders_room n b"
  "orders_room n (b\<lparr>b_retryQueue := v_retryQueue\<rparr>) = orders_room n b"
  "orders_room n (b\<lparr>b_registry := v_registry\<rparr>) = orders_room n b"
  "orders_room n (b\<lparr>b_replayStore := v_replayStore\<rparr>) = orders_room n b"
  "orders_room n (b\<lparr>b_closed := v_closed\<rparr>) = orders_room n b"
  "orders_room n (b\<lparr>b_stopped := v_stopped\<rparr>) = orders_room n b"
  "orders_room n (b\<lparr>b_shutdownErr := v_shutdownErr\<rparr>) = orders_room n b"
  "orders_room n (b\<lparr>b_shutdownDone := v_shutdownDone\<rparr>) = orders_room n b"
  "orders_room n (b\<lparr>b_removals := v_removals\<rparr>) = orders_room n b"
  by (simp_all add: orders_room_def)

lemma inv_roomD: "inv_room held n b \<Longrightarrow> bus_inv held b" "inv_room held n b \<Longrightarrow> orders_room n b"
  by (simp_all add: inv_room_def)

lemma orders_room_mono: "orders_room n b \<Longrightarrow> m \<le> n \<Longrightarrow> orders_room m b"
  by (fastforce simp: orders_room_def)

lemma inv_room_mono: "inv_room held n b \<Longrightarrow> m \<le> n \<Longrightarrow> inv_room held m b"
  using orders_room_mono by (auto simp: inv_room_def)

lemma orders_room_turns: "orders_room n b \<Longrightarrow> nextRef b' = nextRef b \<Longrightarrow> turns_at b' = turns_at b \<Longrightarrow> orders_room n b'"
  by (auto simp: orders_room_def turns_at_def fun_eq_iff)

lemma inv_room_log_only: "inv_room held n b \<Longrightarrow> log_only b b' \<Longrightarrow> inv_room held n b'"
  using bus_inv_log_only [of held b b'] log_only_fields(2,3) [of b b'] by (auto simp: inv_room_def orders_room_def)

lemma inv_room_life:
  assumes "inv_room held n b" "world_inv b'" "nextRef b' = nextRef b" "turns_at b' = turns_at b" "bus_frame b b'"
  shows "inv_room held n b'"
  using bus_inv_life [OF inv_roomD(1) [OF assms(1)] assms(2-5)] orders_room_turns [OF inv_roomD(2) [OF assms(1)] assms(3,4)]
  by (simp add: inv_room_def)

section \<open>Client operations\<close>

lemma turns_at_upd [simp]:
  "nextOrder cl = nextOrder (heap w c) \<Longrightarrow> nextTurn cl = nextTurn (heap w c) \<Longrightarrow>
   canceledOrders cl = canceledOrders (heap w c) \<Longrightarrow>
   turns_at (w\<lparr>heap := (heap w)(c := cl), log := l\<rparr>) = turns_at w"
  "nextOrder cl = nextOrder (heap w c) \<Longrightarrow> nextTurn cl = nextTurn (heap w c) \<Longrightarrow>
   canceledOrders cl = canceledOrders (heap w c) \<Longrightarrow>
   turns_at (w\<lparr>heap := (heap w)(c := cl)\<rparr>) = turns_at w"
  by (auto simp: turns_at_def fun_eq_iff)

lemma inv_room_retire:
  assumes "inv_room held n b" "c < nextRef b"
  shows "inv_room held n (snd (client_retire env c close b))"
  using client_retire_inv [OF bus_invD(1) [OF inv_roomD(1) [OF assms(1)]] assms(2)]
  by (intro inv_room_life [OF assms(1)]) (auto simp: client_retire_eq intro: bus_frame_more)

lemma inv_room_replaceWith:
  assumes "inv_room held n b" "c < nextRef b"
  shows "inv_room held n (snd (client_replaceWith env c conn b))"
  using client_replaceWith_inv [OF bus_invD(1) [OF inv_roomD(1) [OF assms(1)]] assms(2)]
  by (intro inv_room_life [OF assms(1)]) (auto simp: client_replaceWith_eq Let_def intro: bus_frame_more)

lemma inv_room_heartbeat:
  assumes "inv_room held n b" "c < nextRef b"
  shows "inv_room held n (snd (client_heartbeat env m c b))"
proof (cases "inactive (heap b c)")
  case False
  show ?thesis
    using client_heartbeat_inv [OF bus_invD(1) [OF inv_roomD(1) [OF assms(1)]] assms(2)]
    by (intro inv_room_life [OF assms(1)]) (auto simp: client_heartbeat_eq [OF False] intro: bus_frame_more)
qed (use assms in \<open>simp add: client_heartbeat_inactive\<close>)

lemma inv_room_send:
  assumes "inv_room held n b" "ce_client e < nextRef b"
  shows "inv_room held n (snd (Bus_send env e b))"
proof (cases "inactive (heap b (ce_client e))")
  case False
  show ?thesis
    using Bus_send_inv [OF bus_invD(1) [OF inv_roomD(1) [OF assms(1)]] assms(2)]
    by (intro inv_room_life [OF assms(1)]) (auto simp: Bus_send_eq [OF False] intro: bus_frame_more)
qed (use assms in \<open>simp add: Bus_send_inactive\<close>)

lemma inv_room_generation:
  assumes "inv_room held n b"
  shows "inv_room held n (upd_client c (\<lambda>cl. cl\<lparr>replayGeneration := g\<rparr>) b)"
  using bus_invD(1) [OF inv_roomD(1) [OF assms]]
  by (intro inv_room_life [OF assms])
    (auto simp: upd_client_def world_inv_def client_inv_def intro: bus_frame_more)

section \<open>Queue operations\<close>

lemma removePending_fields [simp]:
  "b_config (Bus_removePending c r b) = b_config b" "b_clients (Bus_removePending c r b) = b_clients b"
  "b_registry (Bus_removePending c r b) = b_registry b" "b_replayStore (Bus_removePending c r b) = b_replayStore b"
  "b_closed (Bus_removePending c r b) = b_closed b" "b_stopped (Bus_removePending c r b) = b_stopped b"
  "b_removals (Bus_removePending c r b) = b_removals b" "log (Bus_removePending c r b) = log b"
  "nextRef (Bus_removePending c r b) = nextRef b" "life_at (Bus_removePending c r b) = life_at b"
  "b_sendQueue (Bus_removePending c r b) = eventQueue_filter (pending_match c r) (b_sendQueue b)"
  "b_retryQueue (Bus_removePending c r b) = retryQueue_remove (pending_match c r) (b_retryQueue b)"
proof -
  define w where "w = fold (cancel_slot (pending_match c r)) (drop (eq_head (b_sendQueue b)) (eq_items (b_sendQueue b))) b"
  have f: "bus_frame b w" by (rule bus_frame_more) (simp add: w_def)
  have w: "log w = log b" "nextRef w = nextRef b" "life_at w = life_at b" by (simp_all add: w_def)
  have eq: "Bus_removePending c r b =
      w\<lparr>b_sendQueue := eventQueue_filter (pending_match c r) (b_sendQueue b),
        b_retryQueue := retryQueue_remove (pending_match c r) (b_retryQueue w)\<rparr>"
    by (simp add: Bus_removePending_def eventQueue_remove_def Let_def w_def)
  show "b_config (Bus_removePending c r b) = b_config b" "b_clients (Bus_removePending c r b) = b_clients b"
    "b_registry (Bus_removePending c r b) = b_registry b" "b_replayStore (Bus_removePending c r b) = b_replayStore b"
    "b_closed (Bus_removePending c r b) = b_closed b" "b_stopped (Bus_removePending c r b) = b_stopped b"
    "b_removals (Bus_removePending c r b) = b_removals b" "log (Bus_removePending c r b) = log b"
    "nextRef (Bus_removePending c r b) = nextRef b"
    "b_sendQueue (Bus_removePending c r b) = eventQueue_filter (pending_match c r) (b_sendQueue b)"
    "b_retryQueue (Bus_removePending c r b) = retryQueue_remove (pending_match c r) (b_retryQueue b)"
    using f w(1,2) by (simp_all add: eq bus_frame_def)
  show "life_at (Bus_removePending c r b) = life_at b"
    using w(3) by (simp add: eq life_at_def fun_eq_iff)
qed

lemma cancel_nextOrder [simp]: "nextOrder (client_cancelTurn k t) = nextOrder t" "nextOrder (client_finishTurn k t) = nextOrder t"
  by (simp_all add: client_cancelTurn_def client_finishTurn_def client_advanceCanceledLocked_def split: prod.splits)

lemma fold_cancel_nextOrder [simp]: "nextOrder (heap (fold (cancel_slot match) ss w) c) = nextOrder (heap w c)"
  by (induction ss arbitrary: w) (auto simp: cancel_slot_def split: option.splits)

lemma removePending_heap:
  "heap (Bus_removePending c r b) = heap (snd (eventQueue_remove (pending_match c r) (b_sendQueue b) b))"
  by (simp add: Bus_removePending_def Let_def split: prod.splits)

lemma removePending_nextOrder [simp]: "nextOrder (heap (Bus_removePending c r b) c') = nextOrder (heap b c')"
  by (simp add: removePending_heap eventQueue_remove_def)

lemma parts_ok_removePending: "parts_ok b \<Longrightarrow> parts_ok (Bus_removePending c r b)"
  unfolding parts_ok_def by (simp only: removePending_fields filter_fields retry_queue_fields)
    (simp add: queue_ok_filter retryQueue_remove_spec)

lemma refs_ok_removePending: "parts_ok b \<Longrightarrow> refs_ok b \<Longrightarrow> refs_ok (Bus_removePending c r b)"
  unfolding refs_ok_def parts_ok_def
  by (simp only: removePending_fields) (simp add: set_retryQueue_remove)

lemma tickets_ok_removePending:
  assumes "parts_ok b" "tickets_ok held (queued (b_sendQueue b)) b"
  shows "tickets_ok held (queued (b_sendQueue (Bus_removePending c r b))) (Bus_removePending c r b)"
proof -
  let ?q = "fst (eventQueue_remove (pending_match c r) (b_sendQueue b) b)"
  let ?w = "snd (eventQueue_remove (pending_match c r) (b_sendQueue b) b)"
  have "tickets_ok held (queued ?q) ?w"
    using assms by (intro tickets_ok_remove [OF _ assms(2)]) (simp_all add: parts_ok_def)
  moreover have "?q = b_sendQueue (Bus_removePending c r b)" by (simp add: eventQueue_remove_def)
  moreover have "nextRef (Bus_removePending c r b) = nextRef ?w" by (simp add: eventQueue_remove_def)
  moreover have "turns_at (Bus_removePending c r b) = turns_at ?w"
    by (simp add: turns_at_def removePending_heap fun_eq_iff)
  ultimately show ?thesis using tickets_ok_turns by metis
qed

lemma inv_room_removePending:
  assumes "inv_room held n b"
  shows "inv_room held n (Bus_removePending c r b)"
proof -
  note inv = bus_invD [OF inv_roomD(1) [OF assms]]
  have "world_inv (Bus_removePending c r b)" by (rule world_inv_life [OF inv(1)]) simp_all
  moreover have "orders_room n (Bus_removePending c r b)"
    using inv_roomD(2) [OF assms] by (simp add: orders_room_def)
  ultimately show ?thesis
    using parts_ok_removePending [OF inv(2)] refs_ok_removePending [OF inv(2,3)] tickets_ok_removePending [OF inv(2,4)]
    by (simp add: inv_room_def bus_inv_def del: removePending_fields)
qed

lemma assign_nextOrder: "nextOrder (snd (client_assignOrder t)) = fst (client_assignOrder t)"
  by (simp add: client_assignOrder_def Let_def)

lemma push_cases:
  obtains (Err) x where "eventQueue_push ctx e q w = (PushErr x, q, w)"
  | (Wait) "eventQueue_push ctx e q w = (PushWait, q, w)" "\<not> eq_closed q" "eq_capacity q \<le> eventQueue_sizeLocked q"
  | (Ok) order cl where "client_assignOrder (heap w (ce_client e)) = (order, cl)" "\<not> eq_closed q"
      "eventQueue_sizeLocked q < eq_capacity q"
      "eventQueue_push ctx e q w = (Pushed (e\<lparr>ce_sendOrder := order\<rparr>),
         eventQueue_append (e\<lparr>ce_sendOrder := order\<rparr>) q, upd_client (ce_client e) (\<lambda>_. cl) w)"
proof (cases "ctx (log w)")
  case None
  obtain order cl where "client_assignOrder (heap w (ce_client e)) = (order, cl)" by fastforce
  note push = eventQueue_push_def [of ctx e q w, unfolded None this prod.case Let_def option.case]
  show ?thesis
  proof (cases "eq_closed q")
    case True
    then show ?thesis using push that(1) by simp
  next
    case False
    then show ?thesis
      using push that(2) that(3) [OF \<open>client_assignOrder _ = _\<close> False]
      by (cases "eventQueue_sizeLocked q < eq_capacity q") simp_all
  qed
qed (use that in \<open>simp add: eventQueue_push_def\<close>)

lemma inv_room_push:
  assumes inv: "inv_room held (Suc n) b" and c: "ce_client e < nextRef b"
    and push: "eventQueue_push ctx e (b_sendQueue b) b = (r, q', b')"
  shows "inv_room held n (b'\<lparr>b_sendQueue := q'\<rparr>)"
proof (cases rule: push_cases [of ctx e "b_sendQueue b" b])
  case (Err x)
  then show ?thesis using push inv_room_mono [OF inv] by simp
next
  case Wait
  then show ?thesis using push inv_room_mono [OF inv] by simp
next
  case (Ok order cl)
  let ?e = "e\<lparr>ce_sendOrder := order\<rparr>"
  note I = bus_invD [OF inv_roomD(1) [OF inv]]
  have eq: "q' = eventQueue_append ?e (b_sendQueue b)" "b' = upd_client (ce_client e) (\<lambda>_. cl) b"
    using push Ok(4) by simp_all
  have room: "tickets_room (heap b (ce_client e))"
    using inv_roomD(2) [OF inv] c by (auto simp: orders_room_def tickets_room_def)
  have q: "queue_ok q'" "queued q' = queued (b_sendQueue b) @ [?e]"
    using I(2) Ok(3) by (simp_all add: parts_ok_def eq queue_ok_append)
  have cl: "turns.more cl = turns.more (heap b (ce_client e))" "nextOrder cl = nextOrder (heap b (ce_client e)) + 1"
    using order_ops_more(1) [of "heap b (ce_client e)"] assign_nextOrder [of "heap b (ce_client e)"]
      assign_spec(1) [OF tickets_okD(1) [OF I(4) c] room]
    by (simp_all add: Ok(1))
  have "world_inv b'" by (rule world_inv_life [OF I(1)]) (auto simp: eq life_at_def cl)
  moreover have "tickets_ok held (queued q') b'"
    using tickets_ok_push [OF I(4) c room Ok(1)] by (simp only: eq(2) q(2))
  moreover have "parts_ok (b'\<lparr>b_sendQueue := q'\<rparr>)" using I(2) q by (simp add: parts_ok_def eq)
  moreover have "refs_ok (b'\<lparr>b_sendQueue := q'\<rparr>)" using I(3) by (simp add: refs_ok_def eq)
  moreover have "orders_room n b'"
    using inv_roomD(2) [OF inv] cl(2) c by (auto simp: orders_room_def eq)
  ultimately show ?thesis by (simp add: inv_room_def bus_inv_def)
qed

lemma deliver_synchronous:
  "cfg_synchronous (b_config b) \<Longrightarrow> snd (Bus_deliver env ctx e b) = snd (Bus_send env e b)"
  by (simp add: Bus_deliver_def case_prod_unfold)

lemma inv_room_deliver:
  assumes "inv_room held (Suc n) b" "ce_client e < nextRef b"
  shows "inv_room held n (snd (Bus_deliver env ctx e b))"
proof (cases "cfg_synchronous (b_config b)")
  case True
  then show ?thesis using inv_room_mono [OF inv_room_send [OF assms]] by (simp add: deliver_synchronous)
next
  case False
  obtain r q b' where push: "eventQueue_push ctx e (b_sendQueue b) b = (r, q, b')" by (metis prod_cases3)
  then have "snd (Bus_deliver env ctx e b) = b'\<lparr>b_sendQueue := q\<rparr>"
    using False by (cases r) (simp_all add: Bus_deliver_def)
  then show ?thesis using inv_room_push [OF assms push] by simp
qed

section \<open>Updates of the registry, the store, the client table and the removals\<close>

lemma fold_keeps: "P s \<Longrightarrow> (\<And>x s. P s \<Longrightarrow> P (f x s)) \<Longrightarrow> P (fold f xs s)"
  by (induction xs arbitrary: s) simp_all

lemma registry_ok_subscribe_events: "registry_ok r \<Longrightarrow> registry_ok (subscribe_events Registry_Subscribe c es r)"
  unfolding subscribe_events_def Let_def by (rule fold_keeps [where P = registry_ok]) simp_all

lemma registry_ok_unsubscribe_from_all:
  "registry_ok r \<Longrightarrow> registry_ok (unsubscribe_from_all Registry_UnsubscribeAll all Registry_Unsubscribe c keep r)"
  unfolding unsubscribe_from_all_def by (simp add: fold_keeps [where P = registry_ok])

lemma registry_ok_register:
  "registry_ok r \<Longrightarrow>
   registry_ok (register_subscriptions Registry_Subscribe Registry_UnsubscribeAll all Registry_Unsubscribe c replace es r)"
  unfolding register_subscriptions_def Let_def
  by (rule fold_keeps [where P = registry_ok])
    (simp_all add: registry_ok_subscribe_events registry_ok_unsubscribe_from_all)

lemma inv_room_parts:
  "inv_room held n b \<Longrightarrow> registry_ok r \<Longrightarrow> inv_room held n (b\<lparr>b_registry := r\<rparr>)"
  "inv_room held n b \<Longrightarrow> store_ok s \<Longrightarrow> inv_room held n (b\<lparr>b_replayStore := s\<rparr>)"
  "inv_room held n b \<Longrightarrow> inv_room held n (b\<lparr>b_clients := (b_clients b)(cid := None)\<rparr>)"
  "inv_room held n b \<Longrightarrow> \<forall>p \<in> set ps. snd p < nextRef b \<Longrightarrow> inv_room held n (b\<lparr>b_removals := ps\<rparr>)"
  unfolding inv_room_def bus_inv_def by (simp_all add: parts_ok_def refs_ok_def)

lemma inv_room_ok:
  assumes "inv_room held n b"
  shows "registry_ok (b_registry b)" "store_ok (b_replayStore b)" "queue_ok (b_sendQueue b)"
    "retry_queue_ok (b_retryQueue b)" "config_ok (b_config b)" "finite (dom (b_clients b))"
    "b_clients b cid = Some c \<Longrightarrow> c < nextRef b" "\<forall>p \<in> set (b_removals b). snd p < nextRef b"
  using assms by (auto simp: inv_room_def bus_inv_def parts_ok_def refs_ok_def)

section \<open>Publishing\<close>

lemma inv_room_handle_deliver:
  assumes "inv_room held (Suc n) b" "target < nextRef b"
  shows "inv_room held n (snd (handle_deliver env ctx oper event direct cid target conv l b))"
proof -
  define b1 where "b1 = (if replay_enabled (b_config b) event
      then b\<lparr>b_replayStore := ReplayStore_Store
          \<lparr>re_ClientID = cid, re_Event = event, re_ConvertedValue = fst conv, re_HasConverted = snd conv,
           re_StoredAt = env_now env (log b)\<rparr> (b_replayStore b)\<rparr> else b)"
  define e where "e = new_client_event cid event (event_message event (fst conv) (snd conv)) target (replayGeneration (heap b target))"
  have b1: "inv_room held (Suc n) b1"
    using assms(1) inv_room_parts(2) [OF assms(1)] inv_room_ok(2) [OF assms(1)] by (simp add: b1_def)
  have e: "ce_client e < nextRef b1" using assms(2) by (simp add: e_def b1_def new_client_event_def)
  show ?thesis
  proof (cases "client_isActive target b1")
    case False
    then show ?thesis
      using inv_room_mono [OF b1] by (simp add: handle_deliver_def Let_def e_def [symmetric] b1_def [symmetric])
  next
    case True
    note dl = inv_room_deliver [OF b1 e, of env ctx]
    show ?thesis
    proof (cases "Bus_deliver env ctx e b1")
      case (Pair r b2)
      then have b2: "inv_room held n b2" using dl by simp
      show ?thesis
      proof (cases r)
        case DeliverBlocked
        then show ?thesis using True Pair b2
          by (simp add: handle_deliver_def Let_def e_def [symmetric] b1_def [symmetric])
      next
        case (Delivered sent x e1)
        define b3 where "b3 = (if x = None \<or> sent then Bus_notifyQueued env e1 True b2 else b2)"
        define b4 where "b4 = (if sent then Bus_notifySent env e1 x b3 else b3)"
        have "log_only b2 b3" "log_only b3 b4" by (simp_all add: b3_def b4_def)
        then have b4: "inv_room held n b4" using inv_room_log_only b2 by blast
        have "inv_room held n (Bus_observe env obs b4)" for obs by (rule inv_room_log_only [OF b4 log_only_observe])
        moreover have "snd (handle_deliver env ctx oper event direct cid target conv l b) =
            (if err_is x errInactiveClient then b2
             else case x of None \<Rightarrow> b4 | Some y \<Rightarrow> if cfg_synchronous (b_config b4) then b4
               else Bus_observe env (handle_observation (b_config b4) oper event direct (hl_deliveryCount l) (Some y)) b4)"
          unfolding handle_deliver_def Let_def e_def [symmetric] b1_def [symmetric]
          using True by (cases x) (simp_all add: Pair Delivered b3_def b4_def)
        ultimately show ?thesis using b2 b4 by (cases x) simp_all
      qed
    qed
  qed
qed

lemma inv_room_handle_client:
  assumes "inv_room held (Suc n) b"
  shows "inv_room held n (snd (handle_client env ctx oper event direct excluded cid l b))"
proof -
  note keep = inv_room_mono [OF assms, of n, simplified]
  show ?thesis
    using keep inv_room_log_only [OF keep log_only_observe] inv_room_ok(7) [OF assms]
      inv_room_handle_deliver [OF assms]
    by (simp add: handle_client_def Let_def split: option.split sum.split)
qed

lemma inv_room_handle_loop:
  "inv_room held (length ids + n) b \<Longrightarrow>
   inv_room held n (snd (handle_loop env ctx oper event direct excluded ids l b))"
proof (induction ids arbitrary: l b)
  case Nil
  then show ?case by (simp add: Let_def inv_room_log_only [OF _ log_only_observe])
next
  case (Cons cid ids)
  obtain r b1 where hc: "handle_client env ctx oper event direct excluded cid l b = (r, b1)" by fastforce
  have "inv_room held (length ids + n) b1"
    using inv_room_handle_client [of held "length ids + n" b env ctx oper event direct excluded cid l] Cons.prems hc by simp
  then show ?case using Cons.IH hc inv_room_mono [of held "length ids + n" b1 n] by (cases r) auto
qed

text \<open>How many clients \<^verbatim>\<open>handle\<close> may deliver to.\<close>

definition handle_ids :: "env \<Rightarrow> event \<Rightarrow> bus \<Rightarrow> string list" where
  "handle_ids env event b =
     (let event1 = normalizeEvent event
      in if length (ev_ClientIDs event1) > 0 then ev_ClientIDs event1
         else Registry_Subscribers (env_range env (log b)) (ev_Name event1) (b_registry b))"

lemma inv_room_handle:
  assumes "inv_room held (length (handle_ids env event b) + n) b"
  shows "inv_room held n (snd (Bus_handle env ctx event oper b))"
proof -
  note keep = inv_room_mono [OF assms, of n, simplified]
  note loop = inv_room_handle_loop [OF assms [unfolded handle_ids_def Let_def]]
  show ?thesis
    using keep inv_room_log_only [OF keep log_only_observe] loop
    by (simp add: Bus_handle_def Let_def split: option.split)
qed

lemma inv_room_Publish:
  assumes "inv_room held (length (handle_ids env event b) + n) b"
  shows "inv_room held n (snd (Bus_Publish env ctx event b))"
proof -
  note keep = inv_room_mono [OF assms, of n, simplified]
  have ids: "handle_ids env (normalizeEvent event) b = handle_ids env event b" by (simp add: handle_ids_def)
  obtain r b1 where h: "Bus_handle env (orBackground ctx) (normalizeEvent event) OperationHandleEvent b = (r, b1)" by fastforce
  have b1: "inv_room held n b1"
    using inv_room_handle [of held env "normalizeEvent event" b n "orBackground ctx" OperationHandleEvent] assms h ids by simp
  have "inv_room held n (emit (PublishRemoteCall e x) b1)" for e x
    by (rule inv_room_log_only [OF b1]) simp
  then show ?thesis using keep b1
    by (cases r) (auto simp: Bus_Publish_def h Let_def split: option.split intro!: inv_room_log_only [OF _ log_only_observe])
qed

section \<open>Replay\<close>

lemma nextRef_deliver [simp]: "nextRef (snd (Bus_deliver env ctx e b)) = nextRef b"
proof (cases "cfg_synchronous (b_config b)")
  case True
  have "nextRef (snd (Bus_send env e b)) = nextRef b"
    by (cases "inactive (heap b (ce_client e))") (simp_all add: Bus_send_inactive Bus_send_eq)
  then show ?thesis using True by (simp add: deliver_synchronous)
next
  case False
  then show ?thesis by (cases rule: push_cases [of ctx e "b_sendQueue b" b]) (simp_all add: Bus_deliver_def)
qed

lemma inv_room_replay_loop:
  "inv_room held (length es + n) b \<Longrightarrow> target < nextRef b \<Longrightarrow>
   inv_room held n (snd (replay_loop env ctx clientID target generation cutoff es obs ns errs b))"
proof (induction es arbitrary: obs ns errs b)
  case (Cons retained rest)
  let ?ev = "normalizeEvent (re_Event retained)"
  define e where "e = new_client_event clientID ?ev
      (event_message ?ev (re_ConvertedValue retained) (re_HasConverted retained)) target generation"
  obtain r b1 where d: "Bus_deliver env ctx e b = (r, b1)" by fastforce
  have c: "ce_client e < nextRef b" using Cons.prems(2) by (simp add: e_def new_client_event_def)
  have b1: "inv_room held (length rest + n) b1" "nextRef b1 = nextRef b"
    using inv_room_deliver [of held "length rest + n" b e env ctx] nextRef_deliver [of env ctx e b] Cons.prems(1) c d
    by simp_all
  note keep = inv_room_mono [OF Cons.prems(1), of n, simplified] inv_room_mono [OF b1(1), of n, simplified]
    inv_room_mono [OF Cons.prems(1), of "length rest + n", simplified]
  note IH = Cons.IH [OF keep(3) Cons.prems(2)] Cons.IH [OF b1(1), unfolded b1(2), OF Cons.prems(2)]
  show ?case
  proof (cases r)
    case DeliverBlocked
    show ?thesis using keep IH
      unfolding replay_loop.simps Let_def e_def [symmetric] d DeliverBlocked by (simp split: option.split)
  next
    case (Delivered sent x e1)
    show ?thesis using keep IH
      unfolding replay_loop.simps Let_def e_def [symmetric] d Delivered by (simp split: option.split)
  qed
qed simp

lemma inv_room_replayLocked:
  assumes "inv_room held (length (ReplayStore_EventsSince clientID lastEventID (b_replayStore b)) + n) b"
  shows "inv_room held n (snd (Bus_replayMissedEventsLocked env ctx clientID lastEventID b))"
proof -
  note keep = inv_room_mono [OF assms, of n, simplified]
  show ?thesis
  proof (cases "b_clients b clientID")
    case None
    then show ?thesis using keep by (simp add: Bus_replayMissedEventsLocked_def Let_def split: option.split)
  next
    case (Some target)
    define b2 where "b2 = Bus_removePending target True
        (upd_client target (\<lambda>cl. cl\<lparr>replayGeneration := wrap_uint64 (replayGeneration (heap b target) + 1)\<rparr>) b)"
    have "inv_room held (length (ReplayStore_EventsSince clientID lastEventID (b_replayStore b2)) + n) b2"
      using inv_room_removePending [OF inv_room_generation [OF assms]] by (simp add: b2_def)
    moreover have "target < nextRef b2" using inv_room_ok(7) [OF assms Some] by (simp add: b2_def)
    ultimately have "inv_room held n (snd (replay_loop env ctx clientID target g t
        (ReplayStore_EventsSince clientID lastEventID (b_replayStore b2)) obs ns errs b2))" for g t obs ns errs
      by (rule inv_room_replay_loop)
    then show ?thesis using keep Some
      unfolding Bus_replayMissedEventsLocked_def Let_def b2_def by (simp split: option.split)
  qed
qed

lemma inv_room_ReplayMissedEvents:
  assumes "inv_room held (length (ReplayStore_EventsSince clientID lastEventID (b_replayStore b)) + n) b"
  shows "inv_room held n (snd (Bus_ReplayMissedEvents env ctx clientID lastEventID b))"
proof -
  note keep = inv_room_mono [OF assms, of n, simplified]
  obtain r b1 where rp: "Bus_replayMissedEventsLocked env (orBackground ctx) clientID lastEventID b = (r, b1)" by fastforce
  have b1: "inv_room held n b1" using inv_room_replayLocked [OF assms, of env "orBackground ctx"] rp by simp
  have notified: "inv_room held n (Bus_observe env obs (Bus_notifyDeliveries env ns b1))" for obs ns
    by (rule inv_room_log_only [OF inv_room_log_only [OF b1 log_only_notifyDeliveries] log_only_observe])
  show ?thesis using keep b1 notified inv_room_log_only [OF keep log_only_observe]
    unfolding Bus_ReplayMissedEvents_def Let_def rp by (cases r) (simp_all split: option.split prod.split)
qed

section \<open>Registering, disconnecting and unregistering\<close>

lemma inv_room_alloc:
  assumes inv: "inv_room held n b" and cl: "connection cl \<noteq> None" "\<not> inactive cl" "\<not> connectionClosed cl"
    and fresh: "nextOrder cl = 0" "nextTurn cl = 0" "canceledOrders cl = []" and n: "n < max_uint64"
  shows "inv_room held n (snd (alloc_client cl b))"
proof -
  let ?b = "b\<lparr>heap := (heap b)(nextRef b := cl), nextRef := Suc (nextRef b)\<rparr>"
  note I = bus_invD [OF inv_roomD(1) [OF inv]]
  have "world_inv ?b" using world_inv_alloc [OF I(1) cl] .
  moreover have "parts_ok ?b" using I(2) by (simp add: parts_ok_def)
  moreover have "refs_ok ?b" using I(3) by (auto simp: refs_ok_def less_Suc_eq)
  moreover have "tickets_ok held (queued (b_sendQueue ?b)) ?b"
  proof -
    have new: "tickets (nextRef b) (in_hand held) = []" "tickets (nextRef b) (queued (b_sendQueue b)) = []"
      using tickets_okD(3) [OF I(4)] by (fastforce simp: tickets_def filter_empty_conv)+
    have "turns_ok cl" "tickets_out cl = {}"
      using n by (auto simp: turns_ok_def tickets_out_def fresh max_uint64_def)
    moreover have "ce_client e \<noteq> nextRef b" if "e \<in> set (serving held)" for e
      using tickets_okD(3) [OF I(4), of e] serving_in_hand [OF that] by simp
    ultimately show ?thesis using I(4) new
      by (auto simp: tickets_ok_def ticket_lists_def less_Suc_eq)
  qed
  moreover have "orders_room n ?b" using inv_roomD(2) [OF inv] n by (auto simp: orders_room_def fresh less_Suc_eq)
  ultimately show ?thesis by (simp add: alloc_client_def inv_room_def bus_inv_def)
qed

lemma inv_room_install:
  assumes "inv_room held n b" "target < nextRef b" "target \<notin> ran (b_clients b)"
  shows "inv_room held n (b\<lparr>b_clients := (b_clients b)(cid \<mapsto> target)\<rparr>)"
  using assms unfolding inv_room_def bus_inv_def by (auto simp: parts_ok_def refs_ok_def ran_def)

text \<open>The state in which the new generation is installed, before a replay.\<close>

definition registered_state :: "env \<Rightarrow> string \<Rightarrow> connection \<Rightarrow> registration_config \<Rightarrow> bus \<Rightarrow> bus" where
  "registered_state env clientID conn reg b =
     (let b3 = snd (register_prepare env clientID conn reg b)
      in b3\<lparr>b_clients := (b_clients b3)(clientID \<mapsto> nextRef b)\<rparr>)"

lemma replaceWith_frame: "bus_frame b (snd (client_replaceWith env c conn b))"
  by (rule bus_frame_more) (simp add: client_replaceWith_eq Let_def)

lemma prepare_fields [simp]:
  "fst (register_prepare env clientID conn reg b) = nextRef b"
  "b_clients (snd (register_prepare env clientID conn reg b)) = b_clients b"
  "b_closed (snd (register_prepare env clientID conn reg b)) = b_closed b"
  "b_replayStore (snd (register_prepare env clientID conn reg b)) = b_replayStore b"
  "nextRef (snd (register_prepare env clientID conn reg b)) = Suc (nextRef b)"
  using replaceWith_frame [of "snd (alloc_client cl b)" env _ conn for cl]
  by (simp_all add: register_prepare_def Let_def alloc_client_def bus_frame_def client_replaceWith_eq split: option.split)

lemma registered_state_store [simp]: "b_replayStore (registered_state env clientID conn reg b) = b_replayStore b"
  by (simp add: registered_state_def Let_def)

lemma RegisterContext_commit:
  assumes "clientID \<noteq> []" "\<not> isNil conn" "orBackground ctx0 (log b) = None" "\<not> b_closed b"
  shows "Bus_RegisterContext env ctx0 clientID conn options b =
    register_commit env (orBackground ctx0) clientID (nextRef b) (apply_registration options zero_registration)
      (snd (register_prepare env clientID conn (apply_registration options zero_registration) b))"
  using assms by (simp add: Bus_RegisterContext_def register_arguments_def register_locked_def case_prod_unfold)

lemma RegisterContext_eq:
  fixes options :: "registration_option option list"
  assumes "clientID \<noteq> []" "\<not> isNil conn" "orBackground ctx0 (log b) = None" "\<not> b_closed b"
  defines "reg \<equiv> apply_registration options zero_registration"
  defines "obs \<equiv> (zero_observation OperationRegisterClient ''success'')
      \<lparr>obs_ClientID := clientID, obs_CompleteAfterMessage := reg_complete reg\<rparr>"
  shows "Bus_RegisterContext env ctx0 clientID conn options b =
    (let b4 = registered_state env clientID conn reg b
     in if \<not> reg_replay reg then (Return None, Bus_observe env obs b4)
        else case Bus_replayMissedEventsLocked env (orBackground ctx0) clientID (reg_lastEventID reg) b4 of
               (Blocked, b5) \<Rightarrow> (Blocked, b5)
             | (Return (robs, ns, r), b5) \<Rightarrow>
                 (Return r, Bus_observe env robs (Bus_notifyDeliveries env ns (Bus_observe env obs b5))))"
  using RegisterContext_commit [OF assms(1-4)] assms(4) unfolding reg_def obs_def
  by (simp add: register_commit_def registered_state_def Let_def)

lemma RegisterContext_rejects:
  "\<not> (clientID \<noteq> [] \<and> \<not> isNil conn \<and> orBackground ctx0 (log b) = None \<and> \<not> b_closed b) \<Longrightarrow>
   snd (Bus_RegisterContext env ctx0 clientID conn options b) = b \<and>
   (\<exists>x. fst (Bus_RegisterContext env ctx0 clientID conn options b) = Return (Some x))"
  by (auto simp: Bus_RegisterContext_def register_arguments_def register_locked_def Let_def split: option.splits if_splits)

lemma isNil_None: "\<not> isNil conn \<Longrightarrow> conn \<noteq> None"
  by (cases conn) simp_all

lemma inv_room_prepare:
  assumes inv: "inv_room held n b" and "\<not> isNil conn" "n < max_uint64"
  shows "inv_room held n (snd (register_prepare env clientID conn reg b))"
proof -
  define cl where "cl = zero_client\<lparr>connection := conn, lastTransfer := env_now env (log b), completeAfterMessage := reg_complete reg\<rparr>"
  define b1 where "b1 = snd (alloc_client cl b)"
  have b1: "inv_room held n b1" unfolding b1_def
    by (rule inv_room_alloc [OF inv]) (use assms isNil_None in \<open>simp_all add: cl_def zero_client_def\<close>)
  have clients: "b_clients b1 = b_clients b" by (simp add: b1_def alloc_client_def)
  define b2 where "b2 = (case b_clients b clientID of
      None \<Rightarrow> b1 | Some existing \<Rightarrow> Bus_removePending existing False (snd (client_replaceWith env existing conn b1)))"
  have b2: "inv_room held n b2"
    using b1 inv_room_removePending [OF inv_room_replaceWith [OF b1]] inv_room_ok(7) [OF b1, of clientID]
    by (simp add: b2_def clients split: option.split)
  from inv_room_parts(1) [OF b2 registry_ok_register [OF inv_room_ok(1) [OF b2]]] show ?thesis
    unfolding register_prepare_def Let_def case_prod_unfold snd_conv
    unfolding cl_def [symmetric] b1_def [symmetric] b2_def [symmetric] .
qed

lemma inv_room_commit:
  assumes inv: "inv_room held (length (ReplayStore_EventsSince clientID (reg_lastEventID reg) (b_replayStore b)) + n) b"
    and target: "target < nextRef b" "target \<notin> ran (b_clients b)"
  shows "inv_room held n (snd (register_commit env ctx clientID target reg b))"
proof -
  let ?b = "b\<lparr>b_clients := (b_clients b)(clientID \<mapsto> target)\<rparr>"
  have b4: "inv_room held (length (ReplayStore_EventsSince clientID (reg_lastEventID reg) (b_replayStore ?b)) + n) ?b"
    using inv_room_install [OF inv target] by simp
  obtain r b5 where rp: "Bus_replayMissedEventsLocked env ctx clientID (reg_lastEventID reg) ?b = (r, b5)" by fastforce
  have b5: "inv_room held n b5" using inv_room_replayLocked [OF b4, of env ctx] rp by simp
  have "inv_room held n (Bus_observe env robs (Bus_notifyDeliveries env ns (Bus_observe env obs b5)))" for robs ns obs
    using b5 inv_room_log_only log_only_observe log_only_notifyDeliveries by metis
  then show ?thesis
    using b5 inv_room_log_only [OF inv_room_mono [OF b4] log_only_observe, of n] inv_room_retire [OF inv_room_mono [OF inv] target(1)]
    by (cases r) (simp_all add: register_commit_def Let_def rp split: prod.split)
qed

lemma inv_room_RegisterContext:
  fixes options :: "registration_option option list"
  defines "reg \<equiv> apply_registration options zero_registration"
  assumes inv: "inv_room held (length (ReplayStore_EventsSince clientID (reg_lastEventID reg) (b_replayStore b)) + n) b"
    and n: "length (ReplayStore_EventsSince clientID (reg_lastEventID reg) (b_replayStore b)) + n < max_uint64"
  shows "inv_room held n (snd (Bus_RegisterContext env ctx clientID conn options b))"
proof (cases "clientID \<noteq> [] \<and> \<not> isNil conn \<and> orBackground ctx (log b) = None \<and> \<not> b_closed b")
  case False
  then show ?thesis using RegisterContext_rejects [OF False] inv_room_mono [OF inv] by simp
next
  case True
  let ?b = "snd (register_prepare env clientID conn reg b)"
  have "nextRef b \<notin> ran (b_clients b)" using inv_room_ok(7) [OF inv] by (auto simp: ran_def)
  moreover have "inv_room held (length (ReplayStore_EventsSince clientID (reg_lastEventID reg) (b_replayStore ?b)) + n) ?b"
    using inv_room_prepare [OF inv _ n] True by simp
  ultimately show ?thesis using True inv_room_commit [of held clientID reg ?b n "nextRef b"]
    by (simp add: RegisterContext_commit reg_def [symmetric])
qed

lemma inv_room_Disconnect:
  assumes "inv_room held n b"
  shows "inv_room held n (snd (Bus_Disconnect env clientID conn b))"
  using assms inv_room_ok(7) [OF assms] inv_room_removePending [OF inv_room_retire [OF assms]]
  by (simp add: Bus_Disconnect_def split: option.split)

definition unregistered_state :: "string \<Rightarrow> cref \<Rightarrow> bus \<Rightarrow> bus" where
  "unregistered_state clientID c b =
     (let b3 = Bus_removePending c False (b\<lparr>b_clients := (b_clients b)(clientID := None),
                  b_registry := Registry_UnsubscribeAll clientID (b_registry b)\<rparr>)
      in if cfg_replayStore (b_config b3) \<noteq> None
         then b3\<lparr>b_replayStore := ReplayStore_ClearClient clientID (b_replayStore b3)\<rparr> else b3)"

lemma unregister_noop:
  "b_clients b clientID = None \<Longrightarrow>
   \<not> fst (Bus_unregister env clientID expected stale observeNoop b) \<and>
   log_only b (snd (Bus_unregister env clientID expected stale observeNoop b))"
  by (simp add: Bus_unregister_def Let_def)

lemma unregister_keeps:
  "b_clients b clientID = Some c \<Longrightarrow>
   expected \<noteq> None \<and> expected \<noteq> Some c \<or> (\<exists>t. stale = Some t \<and> t \<le> client_lastSeen c b) \<Longrightarrow>
   Bus_unregister env clientID expected stale observeNoop b = (False, b)"
  by (auto simp: Bus_unregister_def Let_def)

lemma unregister_removes:
  assumes "b_clients b clientID = Some c" "expected = None \<or> expected = Some c"
    "\<And>t. stale = Some t \<Longrightarrow> client_lastSeen c b < t"
  shows "Bus_unregister env clientID expected stale observeNoop b =
    (let (closeErr, b5) = client_retire env c True (unregistered_state clientID c b)
     in (True, Bus_observe env ((zero_observation OperationUnregisterClient (if closeErr \<noteq> None then ''error'' else ''success''))
                 \<lparr>obs_ClientID := clientID, obs_Err := closeErr\<rparr>) b5))"
proof -
  have "\<not> (case stale of None \<Rightarrow> False | Some t \<Rightarrow> \<not> client_lastSeen c b < t)"
    using assms(3) by (simp split: option.split)
  then show ?thesis using assms(1,2) by (auto simp: Bus_unregister_def unregistered_state_def Let_def)
qed

lemma inv_room_unregistered_state:
  assumes "inv_room held n b"
  shows "inv_room held n (unregistered_state clientID c b)"
proof -
  let ?b2 = "b\<lparr>b_clients := (b_clients b)(clientID := None), b_registry := Registry_UnsubscribeAll clientID (b_registry b)\<rparr>"
  have "inv_room held n ?b2"
    using inv_room_parts(1) [OF inv_room_parts(3) [OF assms, of clientID] registry_ok_UnsubscribeAll [OF inv_room_ok(1) [OF assms]]] .
  from inv_room_removePending [OF this] have b3: "inv_room held n (Bus_removePending c False ?b2)" .
  show ?thesis
    using b3 inv_room_parts(2) [OF b3 store_ok_ClearClient [OF inv_room_ok(2) [OF b3]]]
    by (simp add: unregistered_state_def Let_def)
qed

lemma inv_room_unregister:
  assumes "inv_room held n b"
  shows "inv_room held n (snd (Bus_unregister env clientID expected stale observeNoop b))"
proof (cases "b_clients b clientID")
  case None
  then show ?thesis using inv_room_log_only [OF assms] unregister_noop by blast
next
  case (Some c)
  have "c < nextRef (unregistered_state clientID c b)"
    using inv_room_ok(7) [OF assms Some] by (simp add: unregistered_state_def Let_def)
  then have "inv_room held n (snd (client_retire env c True (unregistered_state clientID c b)))"
    by (rule inv_room_retire [OF inv_room_unregistered_state [OF assms]])
  then have removed: "inv_room held n (Bus_observe env obs (snd (client_retire env c True (unregistered_state clientID c b))))" for obs
    by (rule inv_room_log_only) simp
  show ?thesis
  proof (cases "expected \<noteq> None \<and> expected \<noteq> Some c \<or> (\<exists>t. stale = Some t \<and> t \<le> client_lastSeen c b)")
    case True
    then show ?thesis using assms unregister_keeps [OF Some True] by simp
  next
    case False
    then show ?thesis using removed by (subst unregister_removes [OF Some]) (auto simp: case_prod_unfold Let_def)
  qed
qed

end
