(* ===== verification/Bus_Loops_Inv.thy ===== *)
theory Bus_Loops_Inv
  imports Bus_Loops Bus_Inv
begin

text \<open>
  The rounds of the goroutines keep the invariant of the bus: \<^verbatim>\<open>attempt\<close>, the removal
  goroutine, the tickers, closing and the shutdown flush. For the flush the invariant gives more:
  every drained event has its turn when its turn is asked for, so the shutdown always finishes.
\<close>

section \<open>Attempts\<close>

lemma inv_room_exhaust:
  assumes "inv_room h n b" "ce_client e < nextRef b"
  shows "inv_room h n (exhaust_client e b)"
proof (cases "inactive (heap b (ce_client e))")
  case False
  let ?b = "upd_client (ce_client e) (\<lambda>cl. cl\<lparr>inactive := True\<rparr>) b"
  have "world_inv ?b"
    using world_invD [OF bus_invD(1) [OF inv_roomD(1) [OF assms(1)]] assms(2)] False
    by (intro world_inv_step [OF bus_invD(1) [OF inv_roomD(1) [OF assms(1)]] assms(2), where xs = "[]"])
      (use False in \<open>auto simp: client_inv_def\<close>)
  then have "inv_room h n ?b"
    by (rule inv_room_life [OF assms(1)]) (auto simp: upd_client_def intro: bus_frame_more)
  from inv_room_parts(4) [OF this] show ?thesis
    using False assms(2) inv_room_ok(8) [OF assms(1)] by (auto simp: exhaust_client_def)
qed (simp add: exhaust_client_def assms)

lemma send_event: "ce_client (snd (snd (fst (Bus_send env e b)))) = ce_client e"
  "ce_sendOrder (snd (snd (fst (Bus_send env e b)))) = ce_sendOrder e"
  by (cases "inactive (heap b (ce_client e))"; simp add: Bus_send_inactive Bus_send_result)+

lemma send_nextRef: "nextRef (snd (Bus_send env e b)) = nextRef b"
  by (cases "inactive (heap b (ce_client e))") (simp_all add: Bus_send_inactive Bus_send_eq)

lemma inv_room_attempt:
  assumes "inv_room h n b" "ce_client e < nextRef b"
  shows "inv_room h n (snd (Bus_attempt env e b))"
proof -
  obtain a r e1 b1 where s: "Bus_send env e b = ((a, r, e1), b1)" by (metis surj_pair)
  have e1: "ce_client e1 = ce_client e" using send_event(1) [of env e b] s by simp
  have b1: "inv_room h n b1" using inv_room_send [OF assms, of env] s by simp
  have b2: "inv_room h n (Bus_notifySent env e1 r b1)" by (rule inv_room_log_only [OF b1]) simp
  have "nextRef (Bus_notifySent env e1 r b1) = nextRef b"
    using send_nextRef [of env e b] log_only_fields(3) [OF log_only_notifySent [of b1 env e1 r]] s by simp
  then have "inv_room h n (exhaust_client e1 (Bus_notifySent env e1 r b1))"
    using inv_room_exhaust [OF b2] assms(2) e1 by simp
  then show ?thesis using assms b1 b2 inv_room_exhaust [OF assms] by (simp add: Bus_attempt_def s Let_def)
qed

lemma attempt_event [simp]:
  "ce_client (snd (fst (Bus_attempt env e b))) = ce_client e"
  "ce_sendOrder (snd (fst (Bus_attempt env e b))) = ce_sendOrder e"
proof -
  obtain a r e1 b1 where s: "Bus_send env e b = ((a, r, e1), b1)" by (metis surj_pair)
  then show "ce_client (snd (fst (Bus_attempt env e b))) = ce_client e"
    "ce_sendOrder (snd (fst (Bus_attempt env e b))) = ce_sendOrder e"
    using send_event [of env e b] by (simp_all add: Bus_attempt_def s Let_def)
qed

lemma exhaust_nextRef [simp]: "nextRef (exhaust_client e b) = nextRef b"
  by (simp add: exhaust_client_def)

lemma attempt_nextRef [simp]: "nextRef (snd (Bus_attempt env e b)) = nextRef b"
proof -
  obtain a r e1 b1 where s: "Bus_send env e b = ((a, r, e1), b1)" by (metis surj_pair)
  then show ?thesis
    using send_nextRef [of env e b] log_only_fields(3) [OF log_only_notifySent [of b1 env e1 r]]
    by (simp add: Bus_attempt_def s Let_def)
qed

lemma inv_room_removal:
  assumes "inv_room h n b"
  shows "inv_room h n (removal_round env p b)"
proof -
  have "inv_room h n (b\<lparr>b_removals := remove1 p (b_removals b)\<rparr>)"
    using inv_room_ok(8) [OF assms] set_remove1_subset by (intro inv_room_parts(4) [OF assms]) fastforce
  from inv_room_unregister [OF this] have
    u: "inv_room h n (snd (Bus_unregister env cid ex st ob (b\<lparr>b_removals := remove1 p (b_removals b)\<rparr>)))" for cid ex st ob .
  show ?thesis
    using u inv_room_log_only [OF u log_only_notifyUnregistered]
    by (simp add: removal_round_def Let_def case_prod_unfold split: bool.split)
qed

section \<open>Rescheduling\<close>

text \<open>A retry that is scheduled, or handed back, belongs to an allocated client.\<close>

lemma schedule_items:
  assumes ok: "retry_queue_ok q" and sch: "retryQueue_schedule e q = ((p, x), q')"
  shows "retry_queue_ok q'" "rq_capacity q' = rq_capacity q" "rq_closed q' = rq_closed q"
    "ce_client ` set (rq_items q') \<union> ce_client ` set_option p \<subseteq> insert (ce_client e) (ce_client ` set (rq_items q))"
proof -
  let ?e = "e\<lparr>ce_retryOrder := wrap_uint64 (rq_sequence q + 1)\<rparr>"
  have fields: "rq_capacity q' = rq_capacity q \<and> rq_closed q' = rq_closed q"
    using sch by (auto simp: retryQueue_schedule_def Let_def split: if_splits option.splits)
  then show "rq_capacity q' = rq_capacity q" "rq_closed q' = rq_closed q" by simp_all
  have "retry_queue_ok q' \<and> (rq_closed q \<and> q' = q \<and> p = None \<or>
      mset (rq_items q') + mset (case p of None \<Rightarrow> [] | Some y \<Rightarrow> [y]) = add_mset ?e (mset (rq_items q)))"
  proof (cases "rq_closed q")
    case True
    then show ?thesis using sch ok by (simp add: retryQueue_schedule_def)
  next
    case False
    show ?thesis
    proof (cases "int (length (rq_items q)) < rq_capacity q")
      case True
      then show ?thesis using schedule_room [OF ok False True sch] by simp
    next
      case full: False
      then have "int (length (rq_items q)) = rq_capacity q" using ok by (simp add: retry_queue_ok_def)
      then show ?thesis by (rule schedule_full [OF ok False _ sch]) simp
    qed
  qed
  then have "retry_queue_ok q'" and "set (rq_items q') \<union> set_option p \<subseteq> insert ?e (set (rq_items q))"
    by (auto dest!: arg_cong [where f = set_mset] split: option.splits)
  then show "retry_queue_ok q'"
    "ce_client ` set (rq_items q') \<union> ce_client ` set_option p \<subseteq> insert (ce_client e) (ce_client ` set (rq_items q))"
    by fastforce+
qed

lemma inv_room_retryQueue:
  "inv_room h n b \<Longrightarrow> retry_queue_ok q \<Longrightarrow> rq_capacity q = rq_capacity (b_retryQueue b) \<Longrightarrow>
   rq_closed q = rq_closed (b_retryQueue b) \<Longrightarrow> \<forall>e \<in> set (rq_items q). ce_client e < nextRef b \<Longrightarrow>
   inv_room h n (b\<lparr>b_retryQueue := q\<rparr>)"
  unfolding inv_room_def bus_inv_def by (simp add: parts_ok_def refs_ok_def)

lemma inv_room_retry_refs: "inv_room h n b \<Longrightarrow> e \<in> set (rq_items (b_retryQueue b)) \<Longrightarrow> ce_client e < nextRef b"
  by (auto simp: inv_room_def bus_inv_def refs_ok_def)

fun pending_ref :: "worker \<Rightarrow> cref set" where
  "pending_ref (WPending e) = {ce_client e}"
| "pending_ref _ = {}"

lemma inv_room_reschedule:
  assumes inv: "inv_room h n b" and c: "ce_client e < nextRef b"
    and step: "worker_reschedule env retry e b = (w, b')"
  shows "inv_room h n b'" "nextRef b' = nextRef b" "\<forall>c \<in> pending_ref w. c < nextRef b"
    "w = WIdle \<or> w = WExited \<or> (\<exists>p. w = WPending p)"
proof -
  let ?e = "e\<lparr>ce_retryAfter := env_now env (log b) + retry_delay (b_config b) e\<rparr>"
  obtain p x q where sch: "retryQueue_schedule ?e (b_retryQueue b) = ((p, x), q)" by (metis surj_pair)
  note items = schedule_items [OF inv_room_ok(4) [OF inv] sch]
  have refs: "ce_client y < nextRef b" if "y \<in> set (rq_items q) \<union> set_option p" for y
  proof -
    have "ce_client y \<in> insert (ce_client e) (ce_client ` set (rq_items (b_retryQueue b)))" using items(4) that by auto
    then show ?thesis using c inv_room_retry_refs [OF inv] by auto
  qed
  have q: "inv_room h n (b\<lparr>b_retryQueue := q\<rparr>)"
    using items refs by (intro inv_room_retryQueue [OF inv]) auto
  have cases: "retry = False \<and> w = WIdle \<and> b' = b \<or>
      b' = b\<lparr>b_retryQueue := q\<rparr> \<and> (w = WExited \<or> (\<exists>y. p = Some y \<and> w = WPending y) \<or> w = WIdle)"
    using step by (cases retry; cases p; cases x) (auto simp: worker_reschedule_def Let_def sch)
  then show "inv_room h n b'" "nextRef b' = nextRef b" "\<forall>c \<in> pending_ref w. c < nextRef b"
    "w = WIdle \<or> w = WExited \<or> (\<exists>p. w = WPending p)"
    using inv q refs by auto
qed

section \<open>Tickers\<close>

lemma inv_room_expiration:
  assumes "inv_room h n b"
  shows "inv_room h n (expiration_round env now b)"
proof -
  let ?P = "\<lambda>p. inv_room h n (snd p)"
  let ?f = "\<lambda>cutoff cid (removed, b). case Bus_unregister env cid None (Some cutoff) False b of
      (True, b') \<Rightarrow> (removed @ [cid], b') | (False, b') \<Rightarrow> (removed, b')"
  have step: "?P (?f cutoff cid p)" if "?P p" for cutoff cid p
    using inv_room_unregister [OF that, of env cid None "Some cutoff" False]
    by (simp add: case_prod_unfold split: bool.split)
  have "?P (fold (?f cutoff) ids ([], b))" for cutoff ids
    by (rule fold_keeps [where P = ?P]) (use assms step in simp_all)
  then show ?thesis
    using inv_room_log_only [OF _ log_only_notifyUnregistered]
    by (simp add: expiration_round_def Let_def case_prod_unfold)
qed

lemma inv_room_heartbeats:
  assumes "inv_room h n b"
  shows "inv_room h n (heartbeat_round env b)"
proof -
  let ?P = "\<lambda>b'. inv_room h n b' \<and> nextRef b' = nextRef b"
  have "?P (heartbeat_round env b)"
    unfolding heartbeat_round_def
  proof (rule fold_keeps [where P = ?P])
    fix cid b' assume b': "?P b'"
    have "nextRef (snd (client_heartbeat env m c b')) = nextRef b'" for m c
      by (cases "inactive (heap b' c)") (simp_all add: client_heartbeat_inactive client_heartbeat_eq)
    then show "?P (case b_clients b cid of None \<Rightarrow> b' | Some c \<Rightarrow> snd (client_heartbeat env (heartbeat_message (b_config b)) c b'))"
      using b' inv_room_heartbeat [of h n b'] inv_room_ok(7) [OF assms, of cid] by (simp split: option.split)
  qed (simp add: assms)
  then show ?thesis ..
qed

lemma inv_room_cleanup: "inv_room h n b \<Longrightarrow> inv_room h n (replayCleanup_round now b)"
  unfolding replayCleanup_round_def by (rule inv_room_parts(2)) (simp_all add: inv_room_ok)

section \<open>Closing\<close>

lemma inv_room_close:
  assumes "inv_room h n b"
  shows "inv_room h n (close_flag b)" "b_closed b \<Longrightarrow> inv_room h n (close_sendQueue b)"
    "eq_closed (b_sendQueue b) \<Longrightarrow> inv_room h n (close_retryQueue b)" "rq_closed (b_retryQueue b) \<Longrightarrow> inv_room h n (close_stop b)"
  using assms unfolding inv_room_def bus_inv_def close_flag_def close_sendQueue_def close_retryQueue_def close_stop_def
  by (simp_all add: parts_ok_def refs_ok_def)

lemma inv_room_beginClose:
  assumes "inv_room h n b"
  shows "inv_room h n (Bus_beginClose b)"
proof -
  have closed: "b_closed (close_flag b)" "eq_closed (b_sendQueue (close_sendQueue w))" "rq_closed (b_retryQueue (close_retryQueue w))" for w
    by (simp_all add: close_flag_def close_sendQueue_def close_retryQueue_def)
  note inv_room_close(4) [OF inv_room_close(3) [OF inv_room_close(2) [OF inv_room_close(1) [OF assms] closed(1)] closed(2)] closed(3)]
  then show ?thesis using assms by (simp add: Bus_beginClose_def)
qed

text \<open>
  The flush. The drained events are no longer in the queue, so the correspondence of tickets is
  stated for the list still to flush; the rest of the invariant is that of the bus.
\<close>

definition flush_inv :: "client_event list \<Rightarrow> bus \<Rightarrow> bool" where
  "flush_inv es b \<longleftrightarrow> world_inv b \<and> parts_ok b \<and> refs_ok b \<and> tickets_ok ([], [], []) es b"

lemma flush_inv_life:
  assumes "flush_inv es b" "world_inv b'" "nextRef b' = nextRef b" "turns_at b' = turns_at b" "bus_frame b b'"
  shows "flush_inv es b'"
proof -
  have "parts_ok b'" "refs_ok b'"
    using assms by (simp_all add: flush_inv_def parts_ok_def refs_ok_def bus_frame_def)
  then show ?thesis using assms tickets_ok_turns [of _ es b b'] by (simp add: flush_inv_def)
qed

lemma flush_inv_log_only:
  assumes "flush_inv es b" "log_only b b'"
  shows "flush_inv es b'"
  using assms log_only_fields [OF assms(2)] world_inv_log_only [OF _ assms(2)]
  by (intro flush_inv_life [OF assms(1)]) (simp_all add: flush_inv_def turns_at_def fun_eq_iff)

lemma flush_inv_send:
  assumes "flush_inv es b" "ce_client e < nextRef b"
  shows "flush_inv es (snd (Bus_send env e b))"
proof (cases "inactive (heap b (ce_client e))")
  case False
  have "world_inv (snd (Bus_send env e b))"
    using Bus_send_inv [OF _ assms(2)] assms(1) by (simp add: flush_inv_def)
  then show ?thesis
    by (rule flush_inv_life [OF assms(1)]) (auto simp: Bus_send_eq [OF False] intro: bus_frame_more)
qed (use assms in \<open>simp add: Bus_send_inactive\<close>)

lemma flush_inv_finish:
  assumes "flush_inv (e # es) b"
  shows "flush_inv es (upd_client (ce_client e) (client_finishTurn (ce_sendOrder e)) b)"
proof -
  let ?b = "upd_client (ce_client e) (client_finishTurn (ce_sendOrder e)) b"
  have ok: "tickets_ok ([], [], []) (e # es) b" using assms by (simp add: flush_inv_def)
  have "tickets_ok ([e], [], []) es b" using tickets_ok_pop [of "[]" "[]" "[]" "[]" e es b] ok by simp
  then have "tickets_ok ([], [e], []) es b"
    using tickets_ok_serve [of "[]" e "[]" "[]" "[]" "[]" es b] front_has_turn [OF ok] by simp
  then have "tickets_ok ([], [], []) es ?b" using tickets_ok_finish [of "[]" "[]" e "[]" "[]" es b] by simp
  moreover have "world_inv ?b"
    by (rule world_inv_life [of b]) (use assms in \<open>auto simp: flush_inv_def life_at_def\<close>)
  ultimately show ?thesis using assms by (simp add: flush_inv_def parts_ok_def refs_ok_def)
qed

lemma send_frame: "bus_frame b (snd (Bus_send env e b))"
  by (cases "inactive (heap b (ce_client e))") (auto simp: Bus_send_inactive Bus_send_eq intro: bus_frame_more)

lemma retire_frame: "bus_frame b (snd (client_retire env c close b))"
  by (rule bus_frame_more) (simp add: client_retire_eq)

lemma bus_frame_upd: "bus_frame b (upd_client c f b') = bus_frame b b'"
  by (simp add: bus_frame_def)

lemma flush_event_returns:
  assumes inv: "flush_inv (e # es) b"
  shows "\<exists>errs b'. flush_event env e b = Some (errs, b') \<and> flush_inv es b' \<and> bus_frame b b' \<and> nextRef b' = nextRef b"
proof -
  have ok: "tickets_ok ([], [], []) (e # es) b" using inv by (simp add: flush_inv_def)
  have c: "ce_client e < nextRef b" by (rule tickets_okD(3) [OF ok]) simp
  obtain a r e1 b1 where s: "Bus_send env e b = ((a, r, e1), b1)" by (metis surj_pair)
  have b1: "flush_inv (e # es) b1" "nextRef b1 = nextRef b" "bus_frame b b1"
    using flush_inv_send [OF inv c, of env] send_nextRef [of env e b] send_frame [of b env e] s by simp_all
  have b2: "flush_inv (e # es) (Bus_notifySent env e1 r b1)" "nextRef (Bus_notifySent env e1 r b1) = nextRef b"
    "bus_frame b (Bus_notifySent env e1 r b1)"
    using flush_inv_log_only [OF b1(1) log_only_notifySent] log_only_fields [OF log_only_notifySent [of b1 env e1 r]] b1
      bus_frame_trans by auto
  show ?thesis
    using front_has_turn [OF ok] flush_inv_finish [OF inv] flush_inv_finish [OF b1(1)] flush_inv_finish [OF b2(1)] b1 b2
    by (simp add: flush_event_def s Let_def bus_frame_upd)
qed

lemma flush_loop_returns:
  "flush_inv es b \<Longrightarrow>
   \<exists>errs b'. flush_loop env (map Some es) b = Some (errs, b') \<and> flush_inv [] b' \<and> bus_frame b b' \<and> nextRef b' = nextRef b"
proof (induction es arbitrary: b)
  case (Cons e es)
  obtain errs b1 where ev: "flush_event env e b = Some (errs, b1)" "flush_inv es b1" "bus_frame b b1" "nextRef b1 = nextRef b"
    using flush_event_returns [OF Cons.prems, of env] by blast
  from Cons.IH [OF ev(2)] ev show ?case using bus_frame_trans [OF ev(3)] by auto
qed simp

section \<open>Retiring every client\<close>

text \<open>After the last loop of the shutdown every listed client is inactive and its connection closed.\<close>

definition retired :: "cref \<Rightarrow> bus \<Rightarrow> bool" where
  "retired c b \<longleftrightarrow> inactive (heap b c) \<and> connectionClosed (heap b c)"

lemma retire_retired: "retired c (snd (client_retire env c True b))"
  "retired c' b \<Longrightarrow> retired c' (snd (client_retire env c True b))"
  by (auto simp: retired_def client_retire_eq)

lemma flush_inv_retire:
  assumes "flush_inv es b" "c < nextRef b"
  shows "flush_inv es (snd (client_retire env c True b))"
proof -
  have "world_inv (snd (client_retire env c True b))"
    using client_retire_inv [OF _ assms(2)] assms(1) by (simp add: flush_inv_def)
  then show ?thesis
    by (rule flush_inv_life [OF assms(1)]) (auto simp: client_retire_eq intro: bus_frame_more)
qed

lemma retire_all_spec:
  fixes b b0 :: bus and ids :: "string list" and env :: env
  assumes "flush_inv es b" "bus_frame b0 b"
  defines "f \<equiv> \<lambda>cid (errs, b'). case b_clients b0 cid of None \<Rightarrow> (errs, b')
      | Some c \<Rightarrow> (case client_retire env c True b' of (None, b'') \<Rightarrow> (errs, b'')
          | (Some x, b'') \<Rightarrow> (errs @ [ErrWrap (''close client '' @ cid) x], b''))"
  shows "let b' = snd (fold f ids (errs, b)) in flush_inv es b' \<and> bus_frame b0 b' \<and>
    (\<forall>c. retired c b \<longrightarrow> retired c b') \<and> (\<forall>cid \<in> set ids. \<forall>c. b_clients b0 cid = Some c \<longrightarrow> retired c b')"
  using assms(1,2)
proof (induction ids arbitrary: errs b)
  case (Cons cid ids)
  obtain errs1 b1 where f1: "f cid (errs, b) = (errs1, b1)" by fastforce
  have b1: "b_clients b0 cid = None \<and> b1 = b \<or> (\<exists>c. b_clients b0 cid = Some c \<and> b1 = snd (client_retire env c True b))"
    using f1 by (auto simp: f_def case_prod_unfold split: option.splits)
  have "c < nextRef b" if "b_clients b0 cid = Some c" for c
    using Cons.prems that by (auto simp: flush_inv_def refs_ok_def bus_frame_def)
  then have inv1: "flush_inv es b1" "bus_frame b0 b1"
    using b1 Cons.prems flush_inv_retire [OF Cons.prems(1)] bus_frame_trans [OF Cons.prems(2) retire_frame] by auto
  moreover have "\<forall>c. retired c b \<longrightarrow> retired c b1" "\<forall>c. b_clients b0 cid = Some c \<longrightarrow> retired c b1"
    using b1 retire_retired by auto
  ultimately show ?case using Cons.IH [OF inv1, of errs1] by (auto simp: f1 Let_def)
qed simp

lemma flush_inv_drained:
  assumes "bus_inv ([], [], ps) b"
  shows "flush_inv (queued (b_sendQueue b))
    (b\<lparr>b_retryQueue := retryQueue_clear (b_retryQueue b), b_sendQueue := snd (eventQueue_drain (b_sendQueue b))\<rparr>)"
proof -
  have q: "queue_ok (b_sendQueue b)" "retry_queue_ok (b_retryQueue b)" using assms by (simp_all add: bus_inv_def parts_ok_def)
  have "retry_queue_ok (retryQueue_clear (b_retryQueue b))"
    using q(2) by (simp add: retry_queue_ok_def retryQueue_clear_def heap_from_def)
  moreover have "tickets_ok ([], [], []) (queued (b_sendQueue b)) b"
    using assms by (simp add: bus_inv_def tickets_ok_def)
  moreover have "eq_capacity (snd (eventQueue_drain (b_sendQueue b))) = eq_capacity (b_sendQueue b)"
    "eq_closed (snd (eventQueue_drain (b_sendQueue b))) = eq_closed (b_sendQueue b)"
    "rq_capacity (retryQueue_clear (b_retryQueue b)) = rq_capacity (b_retryQueue b)"
    by (simp_all add: eventQueue_drain_def retryQueue_clear_def)
  ultimately show ?thesis
    using assms eventQueue_drain_spec(3) [OF q(1)]
    by (simp add: flush_inv_def bus_inv_def parts_ok_def refs_ok_def)
qed

lemma shutdown_returns:
  assumes inv: "bus_inv ([], [], ps) b" and range: "\<And>h. enumerates (env_range env h)"
  obtains b' where "Bus_shutdown env b = Some b'" "flush_inv [] b'" "b_clients b' = b_clients b" "b_shutdownDone b'"
    "queued (b_sendQueue b') = []" "rq_items (b_retryQueue b') = []"
    "\<forall>cid c. b_clients b cid = Some c \<longrightarrow> retired c b'"
proof -
  let ?b2 = "b\<lparr>b_retryQueue := retryQueue_clear (b_retryQueue b), b_sendQueue := snd (eventQueue_drain (b_sendQueue b))\<rparr>"
  have drain: "fst (eventQueue_drain (b_sendQueue b)) = map Some (queued (b_sendQueue b))"
    using eventQueue_drain_spec(1) inv by (simp add: bus_inv_def parts_ok_def)
  obtain errs b3 where fl: "flush_loop env (map Some (queued (b_sendQueue b))) ?b2 = Some (errs, b3)"
    and b3: "flush_inv [] b3" "bus_frame ?b2 b3"
    using flush_loop_returns [OF flush_inv_drained [OF inv], of env] by auto
  let ?ids = "env_range env (log b3) (dom (b_clients b3))"
  obtain errs' b4 where ra: "retire_all env ?ids b3 = (errs', b4)" by fastforce
  have "finite (dom (b_clients b3))" using b3(1) by (simp add: flush_inv_def parts_ok_def)
  then have ids: "set ?ids = dom (b_clients b3)" using range by simp
  have b4: "flush_inv [] b4" "bus_frame b3 b4" "\<forall>cid c. b_clients b3 cid = Some c \<longrightarrow> retired c b4"
    using retire_all_spec [OF b3(1) bus_frame_refl, where ids = ?ids and errs = "[]" and env = env] ra ids
    by (auto simp: retire_all_def Let_def)
  let ?b' = "b4\<lparr>b_shutdownErr := errors_Join (map Some (errs @ errs')), b_shutdownDone := True\<rparr>"
  have "Bus_shutdown env b = Some ?b'"
    by (simp add: Bus_shutdown_def Let_def case_prod_unfold drain fl ra)
  moreover have "flush_inv [] ?b'" using b4(1) by (simp add: flush_inv_def parts_ok_def refs_ok_def)
  ultimately show ?thesis
    using that [of ?b'] b4(2,3) b3(2) eventQueue_drain_spec(2) by (simp add: retired_def bus_frame_def)
qed

end
