(* ===== verification/System.thy ===== *)
theory System
  imports Bus_Loops_Inv
begin

text \<open>
  The bus with its goroutines: the state of the bus, of every worker and of the retry scheduler, and a
  step relation that interleaves the operations of callers with the rounds of the goroutines in any
  order and under any environment. The invariant of every reachable state gives the concurrency
  properties of the delivery pipeline: per-client order, no deadlock between workers, no event
  skipped, bounded queues, one close per connection, and a shutdown that finishes.
\<close>

section \<open>States and steps\<close>

record system =
  sys_bus :: bus
  sys_workers :: "worker list"
  sys_scheduler :: scheduler

definition initial_system :: "bus \<Rightarrow> system" where
  "initial_system b =
     (if cfg_synchronous (b_config b) then \<lparr>sys_bus = b, sys_workers = [], sys_scheduler = SExited\<rparr>
      else \<lparr>sys_bus = b, sys_workers = replicate (nat (cfg_workers (b_config b))) WIdle, sys_scheduler = SIdle\<rparr>)"

text \<open>Every goroutine counted by \<^verbatim>\<open>b.wg\<close> has ended.\<close>

definition wg_done :: "system \<Rightarrow> bool" where
  "wg_done s \<longleftrightarrow> (\<forall>w \<in> set (sys_workers s). w = WExited) \<and> sys_scheduler s = SExited \<and> b_removals (sys_bus s) = []"

text \<open>
  One critical section of an operation. The operations of callers, and an attempt of a worker, release the mutexes
  between these sections, so the sections of several operations may interleave; taking every section as a step
  of its own, in any order, covers all interleavings, also an operation that goes on after it waited for queue space.
\<close>

inductive section_step :: "bus \<Rightarrow> bus \<Rightarrow> bool" where
  store: "section_step b (b\<lparr>b_replayStore := ReplayStore_Store re (b_replayStore b)\<rparr>)"
| deliver: "orders_room 1 b \<Longrightarrow> target < nextRef b \<Longrightarrow>
    section_step b (snd (Bus_deliver env ctx (new_client_event cid event msg target g) b))"
| report: "log_only b b' \<Longrightarrow> section_step b b'"
| create: "\<not> isNil conn \<Longrightarrow>
    section_step b (snd (alloc_client (zero_client\<lparr>connection := conn, lastTransfer := t, completeAfterMessage := k\<rparr>) b))"
| replace: "c < nextRef b \<Longrightarrow> section_step b (snd (client_replaceWith env c conn b))"
| discard: "section_step b (Bus_removePending c replayable b)"
| install: "target < nextRef b \<Longrightarrow> target \<notin> ran (b_clients b) \<Longrightarrow> section_step b (b\<lparr>b_clients := (b_clients b)(cid \<mapsto> target)\<rparr>)"
| delete: "section_step b (b\<lparr>b_clients := (b_clients b)(cid := None)\<rparr>)"
| forget: "section_step b (b\<lparr>b_replayStore := ReplayStore_ClearClient cid (b_replayStore b)\<rparr>)"
| retire: "c < nextRef b \<Longrightarrow> section_step b (snd (client_retire env c closing b))"
| renumber: "section_step b (upd_client c (\<lambda>cl. cl\<lparr>replayGeneration := g\<rparr>) b)"
| send: "ce_client e < nextRef b \<Longrightarrow> section_step b (snd (Bus_send env e b))"
| exhaust: "ce_client e < nextRef b \<Longrightarrow> section_step b (exhaust_client e b)"
| heartbeat: "c < nextRef b \<Longrightarrow> section_step b (snd (client_heartbeat env m c b))"
| close_flag: "section_step b (close_flag b)"
| close_send: "b_closed b \<Longrightarrow> section_step b (close_sendQueue b)"
| close_retry: "eq_closed (b_sendQueue b) \<Longrightarrow> section_step b (close_retryQueue b)"
| close_stop: "rq_closed (b_retryQueue b) \<Longrightarrow> section_step b (close_stop b)"

text \<open>
  The operations of callers and the rounds of the tickers, whole, in the way a caller sees them. A step that assigns send
  orders asks for room below the wrap-around of \<^verbatim>\<open>uint64\<close>: fewer than \<open>2 ^ 64\<close> sends are ordered for one
  client generation. An operation that blocks for queue space contributes what it did before it blocked; its
  continuation is made of critical sections. A registration also appears in its two phases, so that everything else can
  run between the replacement of the previous generation and the second look at the closed flag.
\<close>

inductive caller_step :: "bus \<Rightarrow> bus \<Rightarrow> bool" where
  publish: "orders_room (length (handle_ids env event b)) b \<Longrightarrow> caller_step b (snd (Bus_Publish env ctx event b))"
| receive: "orders_room (length (handle_ids env event b)) b \<Longrightarrow>
    caller_step b (snd (Bus_handle env Background event OperationReceiveRemote b))"
| register: "n = length (ReplayStore_EventsSince cid (reg_lastEventID (apply_registration options zero_registration)) (b_replayStore b)) \<Longrightarrow>
    orders_room n b \<Longrightarrow> n < max_uint64 \<Longrightarrow> caller_step b (snd (Bus_RegisterContext env ctx cid conn options b))"
| prepare: "\<not> isNil conn \<Longrightarrow> \<not> b_closed b \<Longrightarrow> caller_step b (snd (register_prepare env cid conn reg b))"
| commit: "target < nextRef b \<Longrightarrow> target \<notin> ran (b_clients b) \<Longrightarrow>
    orders_room (length (ReplayStore_EventsSince cid (reg_lastEventID reg) (b_replayStore b))) b \<Longrightarrow>
    caller_step b (snd (register_commit env ctx cid target reg b))"
| replay: "orders_room (length (ReplayStore_EventsSince cid lastID (b_replayStore b))) b \<Longrightarrow>
    caller_step b (snd (Bus_ReplayMissedEvents env ctx cid lastID b))"
| disconnect: "caller_step b (snd (Bus_Disconnect env cid conn b))"
| unregister: "caller_step b (snd (Bus_Unregister env cid b))"
| subscribe: "caller_step b (Bus_Subscribe cid events b)"
| subscribe_only: "caller_step b (Bus_SubscribeOnly env cid ev b)"
| unsubscribe: "caller_step b (Bus_Unsubscribe cid ev b)"
| unsubscribe_all: "caller_step b (Bus_UnsubscribeFromAll env cid keep b)"
| removal: "p \<in> set (b_removals b) \<Longrightarrow> caller_step b (removal_round env p b)"
| expire: "caller_step b (expiration_round env now b)"
| heartbeat: "caller_step b (heartbeat_round env b)"
| cleanup: "caller_step b (replayCleanup_round now b)"
| close: "caller_step b (Bus_beginClose b)"

text \<open>
  The whole system. Each step chooses its own environment, so that time passes and connections answer differently. A worker's
  attempt appears as a round and, with the critical sections, as its count and its end; both for an event whose turn it
  holds and for a retry that the full retry queue handed back, which is attempted without a turn.
\<close>

inductive step :: "system \<Rightarrow> system \<Rightarrow> bool" where
  caller: "caller_step (sys_bus s) b' \<Longrightarrow> step s (s\<lparr>sys_bus := b'\<rparr>)"
| critical: "section_step (sys_bus s) b' \<Longrightarrow> step s (s\<lparr>sys_bus := b'\<rparr>)"
| worker: "sys_workers s = xs @ w # ys \<Longrightarrow> worker_round env w (sys_bus s) = Some (w', b') \<Longrightarrow>
    step s (s\<lparr>sys_bus := b', sys_workers := xs @ w' # ys\<rparr>)"
| scheduler: "orders_room 1 (sys_bus s) \<Longrightarrow> retryLoop_round env (sys_scheduler s) (sys_bus s) = Some (sch', b') \<Longrightarrow>
    step s (s\<lparr>sys_bus := b', sys_scheduler := sch'\<rparr>)"
| counted: "sys_workers s = xs @ WHolding e # ys \<Longrightarrow> step s (s\<lparr>sys_workers := xs @ WHolding (e\<lparr>ce_attempts := k\<rparr>) # ys\<rparr>)"
| finished: "sys_workers s = xs @ WHolding e # ys \<Longrightarrow>
    worker_reschedule env retry e (upd_client (ce_client e) (client_finishTurn (ce_sendOrder e)) (sys_bus s)) = (w', b') \<Longrightarrow>
    step s (s\<lparr>sys_bus := b', sys_workers := xs @ w' # ys\<rparr>)"
| counted_pending: "sys_workers s = xs @ WPending e # ys \<Longrightarrow> step s (s\<lparr>sys_workers := xs @ WPending (e\<lparr>ce_attempts := k\<rparr>) # ys\<rparr>)"
| finished_pending: "sys_workers s = xs @ WPending e # ys \<Longrightarrow> worker_reschedule env retry e (sys_bus s) = (w', b') \<Longrightarrow>
    step s (s\<lparr>sys_bus := b', sys_workers := xs @ w' # ys\<rparr>)"

inductive reachable :: "system \<Rightarrow> bool" where
  start: "list_all (\<lambda>f. \<forall>g. f = Some g \<longrightarrow> package_option g) options \<Longrightarrow> New options consumerErr = Inr (b, gs) \<Longrightarrow>
    reachable (initial_system b)"
| step: "reachable s \<Longrightarrow> step s s' \<Longrightarrow> reachable s'"

section \<open>What the goroutines hold\<close>

fun waiting_of :: "worker \<Rightarrow> client_event list" where
  "waiting_of (WTurn e) = [e]"
| "waiting_of _ = []"

fun serving_of :: "worker \<Rightarrow> client_event list" where
  "serving_of (WHolding e) = [e]"
| "serving_of _ = []"

fun parked_of :: "worker \<Rightarrow> client_event list" where
  "parked_of (WPending e) = [e]"
| "parked_of _ = []"

fun scheduled_of :: "scheduler \<Rightarrow> client_event list" where
  "scheduled_of (SHolding e) = [e]"
| "scheduled_of _ = []"

definition hands_of :: "worker list \<Rightarrow> scheduler \<Rightarrow> hands" where
  "hands_of ws sch = (concat (map waiting_of ws), concat (map serving_of ws), concat (map parked_of ws) @ scheduled_of sch)"

definition system_inv :: "system \<Rightarrow> bool" where
  "system_inv s \<longleftrightarrow> bus_inv (hands_of (sys_workers s) (sys_scheduler s)) (sys_bus s)"

section \<open>Queue and turn steps of a goroutine\<close>

lemma inv_room_parked:
  assumes "inv_room (ws, ss, ps) n b" "\<forall>e \<in> set ps'. ce_client e < nextRef b"
  shows "inv_room (ws, ss, ps') n b"
  using assms unfolding inv_room_def bus_inv_def tickets_ok_def by simp

lemma inv_room_parked_refs: "inv_room (ws, ss, ps) n b \<Longrightarrow> e \<in> set ps \<Longrightarrow> ce_client e < nextRef b"
  unfolding inv_room_def bus_inv_def tickets_ok_def by simp

lemma inv_room_hand_refs: "inv_room (ws, ss, ps) n b \<Longrightarrow> e \<in> set ws \<union> set ss \<Longrightarrow> ce_client e < nextRef b"
  unfolding inv_room_def bus_inv_def tickets_ok_def by simp

lemma inv_room_pop:
  assumes inv: "inv_room (xs @ ys, ss, ps) n b" and q: "queued (b_sendQueue b) = e # es"
  shows "inv_room (xs @ e # ys, ss, ps) n (b\<lparr>b_sendQueue := eventQueue_take (b_sendQueue b)\<rparr>)"
proof -
  have ok: "queue_ok (b_sendQueue b)" using inv_room_ok(3) [OF inv] .
  have taken: "queue_ok (eventQueue_take (b_sendQueue b))" "queued (eventQueue_take (b_sendQueue b)) = es"
    using queue_ok_take [OF ok] q by simp_all
  have "tickets_ok (xs @ e # ys, ss, ps) es b"
    using tickets_ok_pop [of xs ys ss ps e es b] inv q by (simp add: inv_room_def bus_inv_def)
  then show ?thesis
    using inv taken unfolding inv_room_def bus_inv_def by (simp add: parts_ok_def refs_ok_def)
qed

lemma inv_room_serve:
  assumes "inv_room (xs @ e # ys, ss @ zs, ps) n b"
    "client_waitForTurn (ce_sendOrder e) (heap b (ce_client e)) = Some True"
  shows "inv_room (xs @ ys, ss @ e # zs, ps) n b"
  using assms tickets_ok_serve [OF _ assms(2)] by (simp add: inv_room_def bus_inv_def)

lemma inv_room_finish:
  assumes "inv_room (ws, xs @ e # ys, ps) n b"
  shows "inv_room (ws, xs @ ys, ps) n (upd_client (ce_client e) (client_finishTurn (ce_sendOrder e)) b)"
proof -
  let ?b = "upd_client (ce_client e) (client_finishTurn (ce_sendOrder e)) b"
  have "world_inv ?b"
    by (rule world_inv_life [OF bus_invD(1) [OF inv_roomD(1) [OF assms]]]) (auto simp: life_at_def)
  moreover have "tickets_ok (ws, xs @ ys, ps) (queued (b_sendQueue b)) ?b"
    using bus_invD(4) [OF inv_roomD(1) [OF assms]] by (rule tickets_ok_finish)
  moreover have "orders_room n ?b" using inv_roomD(2) [OF assms] by (auto simp: orders_room_def)
  ultimately show ?thesis
    using bus_invD(2,3) [OF inv_roomD(1) [OF assms]]
    by (simp add: inv_room_def bus_inv_def parts_ok_def refs_ok_def)
qed

lemma inv_room_rescheduled:
  assumes inv: "inv_room (Wl @ Wr, Sl @ Sr, Pl @ Pr) n b1" and c: "ce_client e < nextRef b1"
    and resch: "worker_reschedule env r e b1 = (v, b2)"
  shows "inv_room (Wl @ waiting_of v @ Wr, Sl @ serving_of v @ Sr, Pl @ parked_of v @ Pr) n b2"
proof -
  note R = inv_room_reschedule [OF assms]
  have "\<forall>e \<in> set (Pl @ parked_of v @ Pr). ce_client e < nextRef b2"
    using inv_room_parked_refs [OF inv] R by (cases v) auto
  from inv_room_parked [OF R(1) this] show ?thesis using R(4) by auto
qed

lemma inv_room_section:
  assumes inv: "inv_room h 0 b" and st: "section_step b b'"
  shows "inv_room h 0 b'"
  using st
proof cases
  case (deliver target env ctx cid event msg g)
  then have "inv_room h (Suc 0) b" using inv by (simp add: inv_room_def)
  then show ?thesis using deliver inv_room_deliver by (simp add: new_client_event_def)
next
  case (create conn t k)
  then show ?thesis using isNil_None by (auto intro!: inv_room_alloc [OF inv] simp: zero_client_def max_uint64_def)
qed (use inv inv_room_ok(2) [OF inv] in
  \<open>simp_all add: inv_room_parts(2,3) inv_room_log_only inv_room_replaceWith inv_room_removePending inv_room_install
      inv_room_retire inv_room_generation inv_room_send inv_room_exhaust inv_room_heartbeat inv_room_close\<close>)

lemma inv_room_counted: "inv_room (W, S @ e # S', P) n b \<Longrightarrow> inv_room (W, S @ e\<lparr>ce_attempts := k\<rparr> # S', P) n b"
proof -
  assume inv: "inv_room (W, S @ e # S', P) n b"
  let ?e = "e\<lparr>ce_attempts := k\<rparr>"
  have same: "tickets c (W @ S @ ?e # S') = tickets c (W @ S @ e # S')" for c by simp
  have refs: "(\<forall>x \<in> set (W @ S @ ?e # S') \<union> set q. ce_client x < nextRef b) = (\<forall>x \<in> set (W @ S @ e # S') \<union> set q. ce_client x < nextRef b)" for q
    by (simp add: ball_Un)
  have turn: "(\<forall>x \<in> set (S @ ?e # S'). ce_sendOrder x = nextTurn (heap b (ce_client x))) =
      (\<forall>x \<in> set (S @ e # S'). ce_sendOrder x = nextTurn (heap b (ce_client x)))"
    by (simp add: ball_Un)
  have "tickets_ok (W, S @ ?e # S', P) q b = tickets_ok (W, S @ e # S', P) q b" for q
    unfolding tickets_ok_def hands_simps same refs turn ..
  then show ?thesis using inv by (simp add: inv_room_def bus_inv_def)
qed

lemma inv_room_worker:
  assumes inv: "inv_room (Wl @ waiting_of w @ Wr, Sl @ serving_of w @ Sr, Pl @ parked_of w @ Pr) n b"
    and round: "worker_round env w b = Some (w', b')"
  shows "inv_room (Wl @ waiting_of w' @ Wr, Sl @ serving_of w' @ Sr, Pl @ parked_of w' @ Pr) n b'"
proof -
  show ?thesis
  proof (cases w)
    case WIdle
    have q: "queue_ok (b_sendQueue b)" using inv_room_ok(3) [OF inv] .
    show ?thesis
    proof (cases "queued (b_sendQueue b)")
      case Nil
      then show ?thesis using round inv length_queued [OF q] WIdle
        by (auto simp: worker_round_def eventQueue_pop_def split: if_splits)
    next
      case (Cons e es)
      then show ?thesis
        using round inv inv_room_pop [of Wl Wr "Sl @ Sr" "Pl @ Pr" n b e es] queued_front [OF q Cons] length_queued [OF q] WIdle
        by (auto simp: worker_round_def eventQueue_pop_def split: if_splits)
    qed
  next
    case (WTurn e)
    then have "client_waitForTurn (ce_sendOrder e) (heap b (ce_client e)) \<noteq> Some False"
      using ticket_not_refused [OF bus_invD(4) [OF inv_roomD(1) [OF inv]], of e] by simp
    then have "client_waitForTurn (ce_sendOrder e) (heap b (ce_client e)) = Some True" "w' = WHolding e" "b' = b"
      using round WTurn by (auto simp: worker_round_def split: option.splits bool.splits)
    then show ?thesis using inv_room_serve [of Wl e Wr Sl Sr "Pl @ Pr" n b] inv WTurn by simp
  next
    case (WHolding e)
    have c: "ce_client e < nextRef b" using inv_room_hand_refs [OF inv, of e] WHolding by simp
    obtain r e1 b1 where at: "Bus_attempt env e b = ((r, e1), b1)" by (metis surj_pair)
    have "inv_room (Wl @ Wr, Sl @ e # Sr, Pl @ Pr) n b1"
      using inv_room_attempt [OF _ c, of _ n env] inv at WHolding by fastforce
    from inv_room_finish [OF this] show ?thesis
      using inv_room_rescheduled [of Wl Wr Sl Sr Pl Pr n _ e1 env r w' b'] round attempt_event(1) [of env e b] attempt_nextRef [of env e b] at c WHolding
      by (simp add: worker_round_def)
  next
    case (WPending e)
    let ?b = "Bus_notifyQueued env e False b"
    have c: "ce_client e < nextRef b" using inv_room_parked_refs [OF inv, of e] WPending by simp
    have idle: "inv_room (Wl @ Wr, Sl @ Sr, Pl @ Pr) n b"
      using inv_room_parked [OF inv, of "Pl @ Pr"] inv_room_parked_refs [OF inv] WPending by simp
    have nq: "inv_room (Wl @ Wr, Sl @ Sr, Pl @ Pr) n ?b" by (rule inv_room_log_only [OF idle]) simp
    have c': "ce_client e < nextRef ?b" using c log_only_fields(3) [OF log_only_notifyQueued [of b env e False]] by simp
    obtain r e1 b1 where at: "Bus_attempt env e ?b = ((r, e1), b1)" by (metis surj_pair)
    have b1: "inv_room (Wl @ Wr, Sl @ Sr, Pl @ Pr) n b1" using inv_room_attempt [OF nq c', of env] at by simp
    have "ce_client e1 < nextRef b1" using attempt_event(1) [of env e ?b] attempt_nextRef [of env e ?b] at c' by simp
    then show ?thesis using inv_room_rescheduled [OF b1] idle round at WPending
      by (auto simp: worker_round_def split: retry_wait.splits bool.splits)
  next
    case WExited
    then show ?thesis using round by (simp add: worker_round_def)
  qed
qed

lemma popDue_items:
  assumes ok: "retry_queue_ok q" and pop: "retryQueue_popDue now q = ((ev, nxt, op), q')"
  shows "retry_queue_ok q'" "rq_capacity q' = rq_capacity q" "rq_closed q' = rq_closed q"
    "set (rq_items q') \<union> set_option ev \<subseteq> set (rq_items q)"
proof -
  have heap: "is_heap retryHeap_Less (rq_items q)" using ok by (simp add: retry_queue_ok_def)
  have fields: "rq_capacity q' = rq_capacity q \<and> rq_closed q' = rq_closed q"
    using pop by (auto simp: retryQueue_popDue_def Let_def split: if_splits option.splits)
  then show "rq_capacity q' = rq_capacity q" "rq_closed q' = rq_closed q" by simp_all
  have "q' = q \<and> ev = None \<or> (\<exists>x items. heap_Pop retryHeap_Less (rq_items q) = Some (x, items) \<and> ev = Some x \<and> rq_items q' = items)"
    using pop by (auto simp: retryQueue_popDue_def Let_def split: if_splits option.splits)
  then show "retry_queue_ok q'" "set (rq_items q') \<union> set_option ev \<subseteq> set (rq_items q)"
  proof (atomize (full), elim disjE exE conjE)
    fix x items assume x: "heap_Pop retryHeap_Less (rq_items q) = Some (x, items)" "ev = Some x" "rq_items q' = items"
    note pc = retry_heap.heap_Pop_correct [OF heap x(1)]
    have "length (rq_items q) = Suc (length items)" using pc(2) by (metis size_add_mset size_mset)
    then show "retry_queue_ok q' \<and> set (rq_items q') \<union> set_option ev \<subseteq> set (rq_items q)"
      using ok pc(1) x fields arg_cong [OF pc(2), of set_mset] by (auto simp: retry_queue_ok_def)
  qed (simp add: ok)
qed

lemma inv_room_scheduler:
  assumes inv: "inv_room (W, S, P @ scheduled_of sch) (Suc n) b"
    and round: "retryLoop_round env sch b = Some (sch', b')"
  shows "inv_room (W, S, P @ scheduled_of sch') n b'"
proof (cases sch)
  case SIdle
  note keep = inv_room_mono [OF inv, of n, simplified]
  obtain ev nxt op q where pop: "retryQueue_popDue (env_now env (log b)) (b_retryQueue b) = ((ev, nxt, op), q)"
    by (metis surj_pair)
  note items = popDue_items [OF inv_room_ok(4) [OF keep] pop]
  have refs: "ce_client y < nextRef b" if "y \<in> set (rq_items q) \<union> set_option ev" for y
    using inv_room_retry_refs [OF keep] items(4) that by blast
  have popped: "inv_room (W, S, P) n (b\<lparr>b_retryQueue := q\<rparr>)"
    using inv_room_retryQueue [OF keep items(1-3)] refs SIdle by simp
  have held: "inv_room (W, S, P @ [e]) n (b\<lparr>b_retryQueue := q\<rparr>)" if "ev = Some e" for e
    using inv_room_parked [OF popped, of "P @ [e]"] inv_room_parked_refs [OF popped] refs that by auto
  show ?thesis using round keep popped held SIdle
    by (cases op; cases ev) (auto simp: retryLoop_round_def pop Let_def split: if_splits)
next
  case (SHolding e)
  have c: "ce_client e < nextRef b" using inv_room_parked_refs [OF inv, of e] SHolding by simp
  obtain r q b1 where push: "eventQueue_push Background e (b_sendQueue b) b = (r, q, b1)" by (metis surj_pair)
  have "inv_room (W, S, P) (Suc n) b" using inv_room_parked [OF inv, of P] inv_room_parked_refs [OF inv] by simp
  note pushed = inv_room_push [OF this c push]
  show ?thesis
  proof (cases r)
    case (PushErr x)
    then have "q = b_sendQueue b" "b1 = b"
      using push by (cases rule: push_cases [of Background e "b_sendQueue b" b]; simp)+
    then show ?thesis using PushErr pushed round push SHolding by (auto simp: retryLoop_round_def)
  next
    case (Pushed e1)
    then show ?thesis
      using inv_room_log_only [OF pushed log_only_notifyQueued] round push SHolding by (auto simp: retryLoop_round_def)
  qed (use round push SHolding in \<open>simp add: retryLoop_round_def\<close>)
qed (use round in \<open>simp add: retryLoop_round_def\<close>)

section \<open>The invariant of every reachable state\<close>

lemma bus_inv_room0: "inv_room h 0 b \<longleftrightarrow> bus_inv h b"
  by (auto simp: inv_room_def orders_room_def bus_inv_def tickets_ok_def turns_ok_def)

lemma bus_inv_initial:
  assumes "config_ok c"
  shows "bus_inv ([], [], []) (initial_bus c)"
  using assms
  by (simp add: bus_inv_def initial_bus_def world_inv_def parts_ok_def refs_ok_def tickets_ok_def config_ok_def
      newEventQueue_def queue_ok_def queued_def newRetryQueue_def retry_queue_ok_def heap_from_def)

lemma New_config:
  assumes "list_all (\<lambda>f. \<forall>g. f = Some g \<longrightarrow> package_option g) options" "New options consumerErr = Inr (b, gs)"
  obtains c where "config_ok c" "apply_options options defaultConfig = Inr c" "b = initial_bus c" "gs = started_goroutines c"
proof -
  obtain c where c: "apply_options options defaultConfig = Inr c" "b = initial_bus c" "gs = started_goroutines c"
    using assms(2) by (auto simp: New_def split: sum.splits option.splits if_splits)
  have "config_ok c" by (rule apply_options_ok [OF _ _ c(1)]) (use assms(1) in \<open>auto simp: list_all_iff\<close>)
  then show ?thesis using that c by blast
qed

lemma system_inv_start:
  assumes "list_all (\<lambda>f. \<forall>g. f = Some g \<longrightarrow> package_option g) options" "New options consumerErr = Inr (b, gs)"
  shows "system_inv (initial_system b)"
proof -
  obtain c where "config_ok c" "b = initial_bus c" using New_config [OF assms] by metis
  moreover have "concat (map f (replicate k WIdle)) = []" if "f WIdle = []" for f :: "worker \<Rightarrow> client_event list" and k
    using that by (induction k) simp_all
  ultimately show ?thesis
    using bus_inv_initial [of c] by (auto simp: system_inv_def initial_system_def hands_of_def)
qed

lemma system_inv_worker:
  assumes "bus_inv (hands_of (xs @ w # ys) sch) b" "worker_round env w b = Some (w', b')"
  shows "bus_inv (hands_of (xs @ w' # ys) sch) b'"
  using inv_room_worker [where w = w and n = 0 and Pr = "concat (map parked_of ys) @ scheduled_of sch", OF _ assms(2)] assms(1)
  by (simp add: hands_of_def bus_inv_room0)

lemma inv_room_subscriptions:
  assumes inv: "inv_room h n b"
  shows "inv_room h n (Bus_Subscribe cid events b)" "inv_room h n (Bus_UnsubscribeFromAll env cid kept b)"
    "inv_room h n (Bus_SubscribeOnly env cid ev b)" "inv_room h n (Bus_Unsubscribe cid ev b)"
proof -
  note reg = inv_room_ok(1) [OF inv]
  note all = registry_ok_unsubscribe_from_all [OF reg]
  show "inv_room h n (Bus_Subscribe cid events b)" "inv_room h n (Bus_UnsubscribeFromAll env cid kept b)"
    "inv_room h n (Bus_SubscribeOnly env cid ev b)" "inv_room h n (Bus_Unsubscribe cid ev b)"
    using inv_room_parts(1) [OF inv] registry_ok_subscribe_events [OF reg] all registry_ok_subscribe_events [OF all] reg
    by (simp_all add: Bus_Subscribe_def Bus_UnsubscribeFromAll_def Bus_SubscribeOnly_def Bus_Unsubscribe_def)
qed

lemma inv_room_caller:
  assumes inv0: "inv_room h 0 b" and st: "caller_step b b'"
  shows "inv_room h 0 b'"
proof -
  have inv: "inv_room h n b" if "orders_room n b" for n using inv0 that by (simp add: inv_room_def)
  from st show ?thesis
  proof cases
    case (publish env event ctx)
    then show ?thesis using inv_room_Publish [OF inv] by simp
  next
    case (receive env event)
    then show ?thesis using inv_room_handle [OF inv] by simp
  next
    case (register n cid options env ctx conn)
    then show ?thesis using inv_room_RegisterContext [OF inv] by simp
  next
    case (prepare conn env cid reg)
    then show ?thesis using inv_room_prepare [OF inv0] by (simp add: max_uint64_def)
  next
    case (commit target cid reg env ctx)
    then show ?thesis using inv_room_commit [of h cid reg b 0 target] inv by simp
  next
    case (replay cid lastID env ctx)
    then show ?thesis using inv_room_ReplayMissedEvents [OF inv] by simp
  qed (simp_all add: Bus_Unregister_def inv_room_Disconnect [OF inv0] inv_room_unregister [OF inv0] inv_room_subscriptions [OF inv0]
      inv_room_removal [OF inv0] inv_room_expiration [OF inv0] inv_room_heartbeats [OF inv0] inv_room_cleanup [OF inv0]
      inv_room_beginClose [OF inv0])
qed

lemma system_inv_finished:
  assumes inv: "inv_room (hands_of (xs @ WHolding e # ys) sch) 0 b"
    and resch: "worker_reschedule env retry e (upd_client (ce_client e) (client_finishTurn (ce_sendOrder e)) b) = (w', b')"
  shows "inv_room (hands_of (xs @ w' # ys) sch) 0 b'"
proof -
  let ?w = "concat (map waiting_of xs)" and ?s = "concat (map serving_of xs)" and ?p = "concat (map parked_of xs)"
  let ?w' = "concat (map waiting_of ys)" and ?s' = "concat (map serving_of ys)"
    and ?p' = "concat (map parked_of ys) @ scheduled_of sch"
  have held: "inv_room (?w @ ?w', ?s @ e # ?s', ?p @ ?p') 0 b" using inv by (simp add: hands_of_def)
  have "ce_client e < nextRef b" using inv_room_hand_refs [OF held, of e] by simp
  then show ?thesis using inv_room_rescheduled [OF inv_room_finish [OF held] _ resch] by (simp add: hands_of_def)
qed

lemma system_inv_pending:
  assumes inv: "inv_room (hands_of (xs @ WPending e # ys) sch) 0 b"
  shows "inv_room (hands_of (xs @ WPending (e\<lparr>ce_attempts := k\<rparr>) # ys) sch) 0 b"
    and "worker_reschedule env retry e b = (w', b') \<Longrightarrow> inv_room (hands_of (xs @ w' # ys) sch) 0 b'"
proof -
  let ?p = "concat (map parked_of xs)" and ?p' = "concat (map parked_of ys) @ scheduled_of sch"
  have refs: "ce_client x < nextRef b" if "x \<in> set ?p \<union> {e} \<union> set ?p'" for x
    using inv_room_parked_refs [of _ _ "?p @ e # ?p'"] inv that by (simp add: hands_of_def)
  show "inv_room (hands_of (xs @ WPending (e\<lparr>ce_attempts := k\<rparr>) # ys) sch) 0 b"
    using inv_room_parked [of _ _ "?p @ e # ?p'" 0 b "?p @ e\<lparr>ce_attempts := k\<rparr> # ?p'"] inv refs by (simp add: hands_of_def ball_Un)
  have "inv_room (concat (map waiting_of xs) @ concat (map waiting_of ys), concat (map serving_of xs) @ concat (map serving_of ys), ?p @ ?p') 0 b"
    using inv_room_parked [of _ _ "?p @ e # ?p'" 0 b "?p @ ?p'"] inv refs by (simp add: hands_of_def ball_Un)
  from inv_room_rescheduled [OF this, of e env retry w' b'] refs [of e]
  show "worker_reschedule env retry e b = (w', b') \<Longrightarrow> inv_room (hands_of (xs @ w' # ys) sch) 0 b'"
    by (simp add: hands_of_def)
qed

lemma system_inv_step:
  assumes "step s s'" "system_inv s"
  shows "system_inv s'"
proof -
  let ?h = "hands_of (sys_workers s) (sys_scheduler s)"
  have inv0: "inv_room ?h 0 (sys_bus s)" using assms(2) by (simp add: system_inv_def bus_inv_room0)
  from assms(1) show ?thesis
  proof cases
    case (caller b')
    then show ?thesis using inv_room_caller [OF inv0] by (simp add: system_inv_def bus_inv_room0)
  next
    case (critical b')
    then show ?thesis using inv_room_section [OF inv0] by (simp add: system_inv_def bus_inv_room0)
  next
    case (worker xs w ys env w' b')
    then show ?thesis using system_inv_worker [of xs w ys "sys_scheduler s" "sys_bus s" env w' b'] assms(2)
      by (simp add: system_inv_def)
  next
    case (scheduler env sch' b')
    then show ?thesis using inv_room_scheduler [of _ _ _ "sys_scheduler s" 0 "sys_bus s" env sch' b'] inv0
      by (simp add: system_inv_def hands_of_def bus_inv_room0 inv_room_def)
  next
    case (counted xs e ys k)
    then show ?thesis using inv_room_counted [of _ "concat (map serving_of xs)" e "concat (map serving_of ys)"] inv0
      by (simp add: system_inv_def hands_of_def bus_inv_room0 [symmetric])
  next
    case (finished xs e ys env retry w' b')
    then show ?thesis using system_inv_finished [OF _ finished(3)] inv0 by (simp add: system_inv_def bus_inv_room0)
  next
    case (counted_pending xs e ys k)
    then show ?thesis using system_inv_pending(1) inv0 by (simp add: system_inv_def bus_inv_room0)
  next
    case (finished_pending xs e ys env retry w' b')
    then show ?thesis using system_inv_pending(2) [OF _ finished_pending(3)] inv0 by (simp add: system_inv_def bus_inv_room0)
  qed
qed

lemma reachable_inv: "reachable s \<Longrightarrow> system_inv s"
  by (induction rule: reachable.induct) (auto intro: system_inv_start system_inv_step)

end
