(* ===== verification/Scenario.thy ===== *)
theory Scenario
  imports System
begin

text \<open>
  A small concrete run, used to instantiate the theorems about reachable states: two workers, one
  client subscribed to one event, two events published to it and both taken from the queue.
\<close>

definition demo_env :: env where
  "demo_env =
     \<lparr>env_send = \<lambda>_ _ _. None, env_close = \<lambda>_ _. None, env_now = \<lambda>_. 0, env_panics = \<lambda>_. False,
      env_remote = \<lambda>_ _. None, env_marshal = \<lambda>_. Inr [], env_range = \<lambda>_. sorted_list_of_set\<rparr>"

definition demo_conn :: "nat \<Rightarrow> connection" where
  "demo_conn k = Some \<lparr>conn_type = 7, conn_kind = KPointer, conn_comparable = True, conn_data = k,
     conn_pointer = k, conn_len = 0, conn_cap = 0\<rparr>"

definition demo_event :: event where
  "demo_event = (NewNamedEventWithData ''x'' (StringData ''hi''))\<lparr>ev_ClientIDs := [''a'']\<rparr>"

definition demo_bus0 :: bus where
  "demo_bus0 = initial_bus (defaultConfig\<lparr>cfg_workers := 2\<rparr>)"

definition demo_bus1 :: bus where
  "demo_bus1 = snd (Bus_RegisterContext demo_env None ''a'' (demo_conn 1) [Some (SubscribeTo [''x''])] demo_bus0)"

definition demo_bus2 :: bus where
  "demo_bus2 = snd (Bus_Publish demo_env None demo_event demo_bus1)"

lemma demo_New: "New [Some (WithWorkerCount 2)] None = Inr (demo_bus0, started_goroutines (defaultConfig\<lparr>cfg_workers := 2\<rparr>))"
  by (simp add: New_def WithWorkerCount_def demo_bus0_def defaultConfig_def)

definition demo_client :: client where
  "demo_client = zero_client\<lparr>connection := demo_conn 1\<rparr>"

lemma demo_bus1_eq:
  "demo_bus1 = demo_bus0\<lparr>heap := (\<lambda>_. zero_client)(0 := demo_client), nextRef := 1,
     b_registry := \<lparr>subs = [''x'' \<mapsto> {''a''}]\<rparr>, b_clients := [''a'' \<mapsto> 0]\<rparr>"
  by (simp add: demo_bus1_def RegisterContext_unfold Let_def orBackground_def Background_def demo_conn_def
      demo_bus0_def initial_bus_def SubscribeTo_def zero_registration_def register_subscriptions_def subscribe_events_def
      Registry_Subscribe_def NewMemorySubscriptionRegistry_def Bus_observe_def defaultConfig_def alloc_client_def
      demo_env_def demo_client_def zero_client_def)

definition demo_msg :: message where
  "demo_msg = \<lparr>msg_Event = ''x'', msg_Data = ''hi'', msg_HasData = True, msg_Retry = 0, msg_ID = [], msg_Comment = []\<rparr>"

definition demo_ce :: "nat \<Rightarrow> client_event" where
  "demo_ce k = \<lparr>ce_ClientID = ''a'', ce_Event = demo_event, ce_Message = demo_msg, ce_client = 0, ce_attempts = 0,
     ce_retryAfter = 0, ce_retryOrder = 0, ce_generation = 0, ce_sendOrder = k\<rparr>"

lemma demo_normal: "normalizeEvent demo_event = demo_event"
  by (simp add: normalizeEvent_def demo_event_def NewNamedEventWithData_def uniqueStrings_def)

lemma demo_valid: "validateEvent demo_event = None"
  by (simp add: validateEvent_def demo_event_def NewNamedEventWithData_def ContainsAny_def)

lemma demo_event_fields [simp]:
  "ev_ClientIDs demo_event = [''a'']" "ev_Name demo_event = ''x''" "ev_Data demo_event = StringData ''hi''"
  "ev_ID demo_event = []" "ev_Retry demo_event = 0" "ev_Comment demo_event = []"
  by (simp_all add: demo_event_def NewNamedEventWithData_def)

lemma demo_wrap [simp]: "wrap_uint64 (Suc 0) = 1" "wrap_uint64 2 = 2" "wrap_uint64 (Suc (Suc 0)) = 2"
  by (simp_all add: wrap_uint64_def)

lemmas publish_defs =
  Bus_Publish_def Bus_handle_def orBackground_def Background_def demo_normal demo_valid handle_client_def
  handle_deliver_def Bus_convert_def replay_enabled_def Bus_deliver_def eventQueue_push_def
  client_assignOrder_def eventQueue_append_def signal_itemReady_def signal_spaceReady_def eventQueue_sizeLocked_def
  Bus_notifyQueued_def call_extension_def Bus_observe_def new_client_event_def event_message_def
  Registry_IsSubscribed_def client_isActive_def errors_Join_def

lemma demo_bus2_eq:
  "demo_bus2 = demo_bus1\<lparr>heap := (\<lambda>_. zero_client)(0 := demo_client\<lparr>nextOrder := 1, nextTurn := 1\<rparr>),
     log := [QueuedCall (listenerSnapshot (demo_ce 1)) True],
     b_sendQueue := (newEventQueue 10000)\<lparr>eq_items := [Some (demo_ce 1)], eq_itemReady := True, eq_spaceReady := True\<rparr>\<rparr>"
  by (simp add: demo_bus2_def demo_bus1_eq publish_defs Let_def demo_bus0_def initial_bus_def defaultConfig_def
      newEventQueue_def demo_client_def zero_client_def upd_client_def emit_def demo_env_def demo_ce_def demo_msg_def)

definition demo_bus3 :: bus where
  "demo_bus3 = snd (Bus_Publish demo_env None demo_event demo_bus2)"

lemma demo_bus3_eq:
  "demo_bus3 = demo_bus1\<lparr>heap := (\<lambda>_. zero_client)(0 := demo_client\<lparr>nextOrder := 2, nextTurn := 1\<rparr>),
     log := [QueuedCall (listenerSnapshot (demo_ce 1)) True, QueuedCall (listenerSnapshot (demo_ce 2)) True],
     b_sendQueue := (newEventQueue 10000)\<lparr>eq_items := [Some (demo_ce 1), Some (demo_ce 2)], eq_itemReady := True, eq_spaceReady := True\<rparr>\<rparr>"
  by (simp add: demo_bus3_def demo_bus2_eq demo_bus1_eq publish_defs Let_def demo_bus0_def initial_bus_def defaultConfig_def
      newEventQueue_def demo_client_def zero_client_def upd_client_def emit_def demo_env_def demo_ce_def demo_msg_def)

text \<open>The two workers take the two events; the first one gets its turn.\<close>

definition demo_bus4 :: bus where
  "demo_bus4 = demo_bus3\<lparr>b_sendQueue := eventQueue_take (b_sendQueue demo_bus3)\<rparr>"

definition demo_bus5 :: bus where
  "demo_bus5 = demo_bus4\<lparr>b_sendQueue := eventQueue_take (b_sendQueue demo_bus4)\<rparr>"

definition demo_system :: "bus \<Rightarrow> worker list \<Rightarrow> system" where
  "demo_system b ws = \<lparr>sys_bus = b, sys_workers = ws, sys_scheduler = SIdle\<rparr>"

lemma demo_reach0: "reachable (demo_system demo_bus0 [WIdle, WIdle])"
proof -
  have "initial_system demo_bus0 = demo_system demo_bus0 [WIdle, WIdle]"
    by (simp add: initial_system_def demo_system_def demo_bus0_def initial_bus_def defaultConfig_def numeral_2_eq_2)
  moreover have "list_all (\<lambda>f. \<forall>g. f = Some g \<longrightarrow> package_option g) [Some (WithWorkerCount 2)]"
    by (auto intro: package_option.intros)
  ultimately show ?thesis using reachable.start [OF _ demo_New] by simp
qed

lemma demo_reach1: "reachable (demo_system demo_bus1 [WIdle, WIdle])"
proof -
  have "step (demo_system demo_bus0 [WIdle, WIdle]) ((demo_system demo_bus0 [WIdle, WIdle])\<lparr>sys_bus := demo_bus1\<rparr>)"
    using step.caller [OF caller_step.register [of 0 "''a''" "[Some (SubscribeTo [''x''])]"
        "sys_bus (demo_system demo_bus0 [WIdle, WIdle])" demo_env None "demo_conn 1"]]
    by (simp add: demo_system_def demo_bus1_def demo_bus0_def initial_bus_def NewMemoryReplayStore_def
        ReplayStore_EventsSince_def slice_of_def orders_room_def max_uint64_def)
  then show ?thesis using reachable.step [OF demo_reach0] by (simp add: demo_system_def)
qed

lemma demo_publish_step:
  assumes "orders_room 1 b"
  shows "step (demo_system b ws) (demo_system (snd (Bus_Publish demo_env None demo_event b)) ws)"
  using step.caller [OF caller_step.publish [of demo_env demo_event "sys_bus (demo_system b ws)" None]] assms
  by (simp add: demo_system_def handle_ids_def demo_normal)

lemma demo_reach3: "reachable (demo_system demo_bus3 [WIdle, WIdle])"
proof -
  have "orders_room 1 demo_bus1" "orders_room 1 demo_bus2"
    by (simp_all add: orders_room_def demo_bus2_eq demo_bus1_eq demo_client_def zero_client_def max_uint64_def)
  then show ?thesis
    using reachable.step [OF reachable.step [OF demo_reach1 demo_publish_step] demo_publish_step]
    by (simp add: demo_bus2_def demo_bus3_def)
qed

lemma demo_round4: "worker_round demo_env WIdle demo_bus3 = Some (WTurn (demo_ce 1), demo_bus4)"
  by (simp add: worker_round_def eventQueue_pop_def demo_bus4_def)
    (simp add: demo_bus3_eq newEventQueue_def eventQueue_sizeLocked_def)

lemma demo_round5: "worker_round demo_env WIdle demo_bus4 = Some (WTurn (demo_ce 2), demo_bus5)"
  by (simp add: worker_round_def eventQueue_pop_def demo_bus5_def)
    (simp add: demo_bus4_def demo_bus3_eq newEventQueue_def eventQueue_sizeLocked_def eventQueue_take_def Let_def
      eventQueue_compactLocked_def signal_spaceReady_def signal_itemReady_def)

lemma demo_reach5: "reachable (demo_system demo_bus5 [WTurn (demo_ce 1), WTurn (demo_ce 2)])"
proof -
  have "step (demo_system demo_bus3 [WIdle, WIdle]) (demo_system demo_bus4 [WTurn (demo_ce 1), WIdle])"
    using step.worker [of "demo_system demo_bus3 [WIdle, WIdle]" "[]" WIdle "[WIdle]"] demo_round4 by (simp add: demo_system_def)
  moreover have "step (demo_system demo_bus4 [WTurn (demo_ce 1), WIdle]) (demo_system demo_bus5 [WTurn (demo_ce 1), WTurn (demo_ce 2)])"
    using step.worker [of "demo_system demo_bus4 [WTurn (demo_ce 1), WIdle]" "[WTurn (demo_ce 1)]" WIdle "[]"] demo_round5
    by (simp add: demo_system_def)
  ultimately show ?thesis using reachable.step [OF reachable.step [OF demo_reach3]] by blast
qed

lemma demo_round6: "worker_round demo_env (WTurn (demo_ce 1)) demo_bus5 = Some (WHolding (demo_ce 1), demo_bus5)"
  by (simp add: worker_round_def client_waitForTurn_def demo_bus5_def demo_bus4_def demo_bus3_eq demo_ce_def)

lemma demo_reach6: "reachable (demo_system demo_bus5 [WHolding (demo_ce 1), WTurn (demo_ce 2)])"
  using reachable.step [OF demo_reach5]
    step.worker [of "demo_system demo_bus5 [WTurn (demo_ce 1), WTurn (demo_ce 2)]" "[]" "WTurn (demo_ce 1)" "[WTurn (demo_ce 2)]"]
    demo_round6
  by (simp add: demo_system_def)

text \<open>Closing instead: the goroutines end, with both events still queued.\<close>

definition demo_bus7 :: bus where
  "demo_bus7 = Bus_beginClose demo_bus3"

definition demo_closed :: system where
  "demo_closed = \<lparr>sys_bus = demo_bus7, sys_workers = [WExited, WExited], sys_scheduler = SExited\<rparr>"

lemma demo_round7: "worker_round demo_env WIdle demo_bus7 = Some (WExited, demo_bus7)"
  by (simp add: worker_round_def eventQueue_pop_def demo_bus7_def beginClose_unfold demo_bus3_eq demo_bus1_eq
      demo_bus0_def initial_bus_def newEventQueue_def eventQueue_close_def)

lemma demo_sched7: "retryLoop_round demo_env SIdle demo_bus7 = Some (SExited, demo_bus7)"
  by (simp add: retryLoop_round_def retryQueue_popDue_def demo_bus7_def beginClose_unfold demo_bus3_eq demo_bus1_eq
      demo_bus0_def initial_bus_def retryQueue_close_def)

lemma demo_closed_reachable: "reachable demo_closed"
proof -
  have r0: "reachable (demo_system demo_bus7 [WIdle, WIdle])"
    using reachable.step [OF demo_reach3 step.caller [OF caller_step.close]] by (simp add: demo_system_def demo_bus7_def)
  have r1: "reachable (demo_system demo_bus7 [WExited, WIdle])"
    using reachable.step [OF r0] step.worker [of "demo_system demo_bus7 [WIdle, WIdle]" "[]" WIdle "[WIdle]"] demo_round7
    by (simp add: demo_system_def)
  have r2: "reachable (demo_system demo_bus7 [WExited, WExited])"
    using reachable.step [OF r1] step.worker [of "demo_system demo_bus7 [WExited, WIdle]" "[WExited]" WIdle "[]"] demo_round7
    by (simp add: demo_system_def)
  have "orders_room 1 demo_bus7"
    by (simp add: orders_room_def demo_bus7_def beginClose_unfold demo_bus3_eq demo_bus1_eq demo_client_def zero_client_def max_uint64_def)
  then show ?thesis
    using reachable.step [OF r2] step.scheduler [of "demo_system demo_bus7 [WExited, WExited]"] demo_sched7
    by (simp add: demo_system_def demo_closed_def)
qed

lemma demo_closed_facts:
  "wg_done demo_closed" "b_closed (sys_bus demo_closed)" "b_stopped (sys_bus demo_closed)" "\<not> cfg_synchronous (b_config (sys_bus demo_closed))"
  by (simp_all add: wg_done_def demo_closed_def demo_bus7_def beginClose_unfold demo_bus3_eq demo_bus1_eq
      demo_bus0_def initial_bus_def defaultConfig_def)

lemma demo_env_range: "enumerates (env_range demo_env h)"
  by (simp add: demo_env_def)

end
