(* ===== verification/Delivery.thy ===== *)
theory Delivery
  imports Scenario
begin

text \<open>
  The properties of the delivery pipeline in every reachable state: order and progress of the
  workers, bounded queues, the lifecycle of connections, and closing.
\<close>

lemma reachable_bus: "reachable s \<Longrightarrow> bus_inv (hands_of (sys_workers s) (sys_scheduler s)) (sys_bus s)"
  using reachable_inv by (simp add: system_inv_def)

lemma reachable_tickets:
  "reachable s \<Longrightarrow> tickets_ok (hands_of (sys_workers s) (sys_scheduler s)) (queued (b_sendQueue (sys_bus s))) (sys_bus s)"
  using bus_invD(4) [OF reachable_bus] .

lemma in_hand_iff:
  "e \<in> set (in_hand (hands_of ws sch)) \<longleftrightarrow> WTurn e \<in> set ws \<or> WHolding e \<in> set ws"
proof -
  have "e \<in> set (waiting_of w) \<longleftrightarrow> w = WTurn e" "e \<in> set (serving_of w) \<longleftrightarrow> w = WHolding e" for w
    by (cases w; auto)+
  then show ?thesis by (auto simp: hands_of_def)
qed

lemma serving_iff: "e \<in> set (serving (hands_of ws sch)) \<longleftrightarrow> WHolding e \<in> set ws"
proof -
  have "e \<in> set (serving_of w) \<longleftrightarrow> w = WHolding e" for w by (cases w) auto
  then show ?thesis by (auto simp: hands_of_def)
qed

text \<open>C1. Workers do not deadlock on the send order: whenever a worker waits for the turn of an
  event, some worker (holding the turn of the same client, or able to take it) can make its next
  move, whatever the environment answers.\<close>

theorem no_worker_deadlock:
  assumes "reachable s" "WTurn e \<in> set (sys_workers s)"
  shows "\<exists>w e'. w \<in> set (sys_workers s) \<and> (w = WTurn e' \<or> w = WHolding e') \<and> ce_client e' = ce_client e \<and>
    (\<forall>env. worker_round env w (sys_bus s) \<noteq> None)"
proof -
  let ?h = "hands_of (sys_workers s) (sys_scheduler s)"
  have "e \<in> set (in_hand ?h)" using assms(2) by (simp add: in_hand_iff)
  then obtain e' where e': "e' \<in> set (in_hand ?h)" "ce_client e' = ce_client e"
    "client_waitForTurn (ce_sendOrder e') (heap (sys_bus s) (ce_client e)) = Some True"
    using holder_has_turn [OF reachable_tickets [OF assms(1)]] by blast
  have "worker_round env (WTurn e') (sys_bus s) \<noteq> None" "worker_round env (WHolding e') (sys_bus s) \<noteq> None" for env
    using e'(2,3) by (simp_all add: worker_round_def case_prod_unfold)
  then show ?thesis using e'(1,2) unfolding in_hand_iff by blast
qed

theorem no_worker_deadlock_witness:
  "\<exists>w e'. w \<in> set (sys_workers (demo_system demo_bus5 [WTurn (demo_ce 1), WTurn (demo_ce 2)])) \<and>
    (w = WTurn e' \<or> w = WHolding e') \<and> ce_client e' = ce_client (demo_ce 2) \<and>
    (\<forall>env. worker_round env w (sys_bus (demo_system demo_bus5 [WTurn (demo_ce 1), WTurn (demo_ce 2)])) \<noteq> None)"
  by (rule no_worker_deadlock [OF demo_reach5]) (simp add: demo_system_def)

text \<open>C2. Per-client order and mutual exclusion of turns: a worker that holds the turn of an event is the only one
  that holds a turn of that client, and the event was queued before every other event of that client that is in the send
  queue or in the hands of a worker that waits for its turn. (A retry that the full retry queue handed back to a
  worker is attempted without a turn, and is outside this order.)\<close>

theorem attempts_in_queue_order:
  assumes "reachable s" "sys_workers s = xs @ WHolding e # ys"
    and "ce_client e' = ce_client e"
    and "e' \<in> set (queued (b_sendQueue (sys_bus s))) \<or> (\<exists>w \<in> set (xs @ ys). w = WTurn e' \<or> w = WHolding e')"
  shows "ce_sendOrder e < ce_sendOrder e' \<and> (\<forall>w \<in> set (xs @ ys). w \<noteq> WHolding e')"
proof -
  let ?h = "hands_of (sys_workers s) (sys_scheduler s)" and ?c = "ce_client e"
  note ok = reachable_tickets [OF assms(1)]
  have e: "e \<in> set (serving ?h)" "e \<in> set (in_hand ?h)" using assms(2) by (simp_all add: serving_iff in_hand_iff)
  have c: "?c < nextRef (sys_bus s)" using tickets_okD(3) [OF ok] e(2) by blast
  note lists = tickets_okD(2) [OF ok c]
  have turn: "ce_sendOrder e = nextTurn (heap (sys_bus s) ?c)" by (rule tickets_okD(4) [OF ok e(1)])
  let ?xs = "hands_of xs (sys_scheduler s)" and ?ys = "hands_of ys (sys_scheduler s)"
  have other: "ce_sendOrder e' \<noteq> ce_sendOrder e" if "w \<in> set (xs @ ys)" "w = WTurn e' \<or> w = WHolding e'" for w
  proof -
    have "e' \<in> set (in_hand ?xs) \<union> set (in_hand ?ys)" using that by (auto simp: in_hand_iff)
    then have "ce_sendOrder e' \<in> set (tickets ?c (in_hand ?xs)) \<union> set (tickets ?c (in_hand ?ys))"
      using assms(3) by (auto simp: set_tickets)
    moreover have "distinct (tickets ?c (in_hand ?h))" using lists by (simp add: ticket_lists_def)
    ultimately show ?thesis using assms(2) by (auto simp: hands_of_def)
  qed
  have mem: "e' \<in> set (in_hand ?h) \<union> set (queued (b_sendQueue (sys_bus s)))"
    using assms(2,4) by (auto simp: in_hand_iff)
  then have "ce_sendOrder e' \<in> tickets_out (heap (sys_bus s) ?c)" using ticket_in_hand [OF ok mem] assms(3) by simp
  then have "ce_sendOrder e \<le> ce_sendOrder e'" using turn by (simp add: tickets_out_def)
  moreover have "ce_sendOrder e' \<noteq> ce_sendOrder e"
  proof (cases "e' \<in> set (queued (b_sendQueue (sys_bus s)))")
    case True
    have "ce_sendOrder e \<in> set (tickets ?c (in_hand ?h))" using e(2) by (auto simp: set_tickets)
    moreover have "ce_sendOrder e' \<in> set (tickets ?c (queued (b_sendQueue (sys_bus s))))"
      using True assms(3) by (auto simp: set_tickets)
    ultimately have "ce_sendOrder e < ce_sendOrder e'" using lists by (simp add: ticket_lists_def)
    then show ?thesis by simp
  qed (use assms(4) other in blast)
  moreover have "w \<noteq> WHolding e'" if "w \<in> set (xs @ ys)" for w
  proof
    assume w: "w = WHolding e'"
    then have "e' \<in> set (serving ?h)" using that assms(2) by (auto simp: serving_iff)
    then show False using tickets_okD(4) [OF ok] turn assms(3) other [OF that] w by simp
  qed
  ultimately show ?thesis by force
qed

theorem attempts_in_queue_order_witness:
  "ce_sendOrder (demo_ce 1) < ce_sendOrder (demo_ce 2) \<and> WHolding (demo_ce 2) \<notin> set ([] @ [WTurn (demo_ce 2)])"
  using attempts_in_queue_order [OF demo_reach6, of "[]" "demo_ce 1" "[WTurn (demo_ce 2)]" "demo_ce 2"]
  by (simp add: demo_system_def demo_ce_def)

text \<open>C3. No event taken from the queue is dropped by the turn check: \<^verbatim>\<open>waitForTurn\<close> never
  returns false to a worker, and with a single worker it returns at once.\<close>

theorem popped_never_skipped:
  assumes "reachable s" "WTurn e \<in> set (sys_workers s)"
  shows "client_waitForTurn (ce_sendOrder e) (heap (sys_bus s) (ce_client e)) \<noteq> Some False \<and>
    (length (sys_workers s) = 1 \<longrightarrow> client_waitForTurn (ce_sendOrder e) (heap (sys_bus s) (ce_client e)) = Some True)"
proof -
  let ?h = "hands_of (sys_workers s) (sys_scheduler s)"
  note ok = reachable_tickets [OF assms(1)]
  have "e \<in> set (in_hand ?h)" using assms(2) by (simp add: in_hand_iff)
  moreover have "in_hand ?h = [e]" if "length (sys_workers s) = 1"
    using that assms(2) by (cases "sys_workers s") (auto simp: hands_of_def)
  ultimately show ?thesis using ticket_not_refused [OF ok, of e] alone_has_turn [OF ok, of e] by blast
qed

theorem popped_never_skipped_witness:
  "client_waitForTurn (ce_sendOrder (demo_ce 2)) (heap demo_bus5 (ce_client (demo_ce 2))) \<noteq> Some False"
  using popped_never_skipped [OF demo_reach5, of "demo_ce 2"] by (simp add: demo_system_def)

text \<open>C4. Lifecycle of every client generation: its connection is closed at most once, exactly when
  the client is marked closed, and only after it is inactive; a complete-after-message client
  receives at most one event successfully, and none while it is still active.\<close>

theorem connection_lifecycle:
  assumes "reachable s" "c < nextRef (sys_bus s)"
  shows "close_count c (log (sys_bus s)) = (if connectionClosed (heap (sys_bus s) c) then 1 else 0) \<and>
    (connectionClosed (heap (sys_bus s) c) \<longrightarrow> inactive (heap (sys_bus s) c)) \<and>
    (completeAfterMessage (heap (sys_bus s) c) \<longrightarrow>
       delivery_count c (log (sys_bus s)) \<le> (if inactive (heap (sys_bus s) c) then 1 else 0))"
  using world_invD [OF bus_invD(1) [OF reachable_bus [OF assms(1)]] assms(2)] by (simp add: client_inv_def)

theorem connection_lifecycle_witness: "close_count 0 (log demo_bus5) = (if connectionClosed (heap demo_bus5 0) then 1 else 0)"
  using connection_lifecycle [OF demo_reach6, of 0]
  by (simp add: demo_system_def) (simp add: demo_bus5_def demo_bus4_def demo_bus3_eq demo_bus1_eq)

text \<open>C5. Bounded memory: the send queue and the retry queue never exceed the configured capacities,
  whatever is published, retried, replayed or removed.\<close>

theorem bounded_queues:
  assumes "reachable s"
  shows "0 \<le> Bus_SendQueueSize (sys_bus s) \<and> Bus_SendQueueSize (sys_bus s) \<le> cfg_sendCapacity (b_config (sys_bus s)) \<and>
    0 \<le> Bus_RetryQueueSize (sys_bus s) \<and> Bus_RetryQueueSize (sys_bus s) \<le> cfg_retryCapacity (b_config (sys_bus s))"
proof -
  have ok: "queue_ok (b_sendQueue (sys_bus s))" "retry_queue_ok (b_retryQueue (sys_bus s))"
    "eq_capacity (b_sendQueue (sys_bus s)) = cfg_sendCapacity (b_config (sys_bus s))"
    "rq_capacity (b_retryQueue (sys_bus s)) = cfg_retryCapacity (b_config (sys_bus s))"
    using bus_invD(2) [OF reachable_bus [OF assms]] by (simp_all add: parts_ok_def)
  have "int (length (queued (b_sendQueue (sys_bus s)))) \<le> cfg_sendCapacity (b_config (sys_bus s))"
    using send_queue.within_bound [OF ok(1)] ok(3) by simp
  then show ?thesis using ok(2,4) length_queued [OF ok(1)]
    by (simp add: Bus_SendQueueSize_def Bus_RetryQueueSize_def eventQueue_len_def retryQueue_len_def retry_queue_ok_def)
qed

theorem bounded_queues_witness: "Bus_SendQueueSize demo_bus5 \<le> cfg_sendCapacity (b_config demo_bus5)"
  using bounded_queues [OF demo_reach6] by (simp add: demo_system_def)

text \<open>C6. Closing finishes: once every goroutine has ended, the shutdown returns (no drained event
  waits for its turn forever), it empties both queues, and every registered client is inactive with
  its connection closed exactly once.\<close>

theorem shutdown_finishes:
  assumes "reachable s" "wg_done s" "\<And>h. enumerates (env_range env h)"
  shows "\<exists>b'. Bus_shutdown env (sys_bus s) = Some b' \<and> b_shutdownDone b' \<and> b_clients b' = b_clients (sys_bus s) \<and>
    Bus_SendQueueSize b' = 0 \<and> Bus_RetryQueueSize b' = 0 \<and>
    (\<forall>cid c. b_clients b' cid = Some c \<longrightarrow>
       inactive (heap b' c) \<and> connectionClosed (heap b' c) \<and> close_count c (log b') = 1)"
proof -
  have "concat (map f (sys_workers s)) = []" if "f WExited = []" for f :: "worker \<Rightarrow> client_event list"
    using assms(2) that by (auto simp: wg_done_def)
  note this [of waiting_of] this [of serving_of] this [of parked_of]
  then have "bus_inv ([], [], []) (sys_bus s)"
    using reachable_bus [OF assms(1)] assms(2) by (simp add: hands_of_def wg_done_def del: concat_eq_Nil_conv)
  then obtain b' where b': "Bus_shutdown env (sys_bus s) = Some b'" "flush_inv [] b'" "b_clients b' = b_clients (sys_bus s)"
    "b_shutdownDone b'"
    "queued (b_sendQueue b') = []" "rq_items (b_retryQueue b') = []" "\<forall>cid c. b_clients (sys_bus s) cid = Some c \<longrightarrow> retired c b'"
    using shutdown_returns [OF _ assms(3)] by blast
  have "close_count c (log b') = 1" if "b_clients b' cid = Some c" for cid c
  proof -
    have "c < nextRef b'" using b'(2) that by (auto simp: flush_inv_def refs_ok_def)
    then have "client_inv (log b') c (heap b' c)" using b'(2) by (auto simp: flush_inv_def intro: world_invD)
    then show ?thesis using b'(3,7) that by (simp add: client_inv_def retired_def)
  qed
  moreover have "Bus_SendQueueSize b' = 0" "Bus_RetryQueueSize b' = 0"
    using b'(5,6) length_queued [of "b_sendQueue b'"] b'(2)
    by (simp_all add: Bus_SendQueueSize_def Bus_RetryQueueSize_def eventQueue_len_def retryQueue_len_def flush_inv_def parts_ok_def)
  ultimately show ?thesis using b' by (auto simp: retired_def)
qed

theorem shutdown_finishes_witness:
  "\<exists>b'. Bus_shutdown demo_env (sys_bus demo_closed) = Some b' \<and> b_shutdownDone b' \<and> b_clients b' = b_clients (sys_bus demo_closed) \<and>
    Bus_SendQueueSize b' = 0 \<and> Bus_RetryQueueSize b' = 0 \<and>
    (\<forall>cid c. b_clients b' cid = Some c \<longrightarrow>
       inactive (heap b' c) \<and> connectionClosed (heap b' c) \<and> close_count c (log b') = 1)"
  by (rule shutdown_finishes [OF demo_closed_reachable demo_closed_facts(1) demo_env_range])

lemma reachable_closing:
  assumes "reachable s"
  shows "b_stopped (sys_bus s) \<Longrightarrow> eq_closed (b_sendQueue (sys_bus s))" "eq_closed (b_sendQueue (sys_bus s)) \<Longrightarrow> b_closed (sys_bus s)"
  using bus_invD(2) [OF reachable_bus [OF assms]] by (simp_all add: parts_ok_def)

text \<open>C7. What a bus refuses while \<^verbatim>\<open>Close\<close> runs, for a live context. Once the closed flag is set, every
  registration with a valid ID and connection reports \<^verbatim>\<open>ErrClosed\<close> and changes nothing. Once the send queue is closed
  (the flag is set by then), an asynchronous delivery reports \<^verbatim>\<open>ErrClosed\<close> and queues nothing. Once the stop
  channel is closed (the send queue is closed by then), publishing and replaying report \<^verbatim>\<open>ErrClosed\<close> and change
  nothing.\<close>

theorem closed_bus_rejects:
  assumes "reachable s" "orBackground ctx (log (sys_bus s)) = None"
  shows "(b_closed (sys_bus s) \<and> cid \<noteq> [] \<and> \<not> isNil conn \<longrightarrow>
       Bus_RegisterContext env ctx cid conn options (sys_bus s) = (Return (Some ErrClosed), sys_bus s)) \<and>
    (eq_closed (b_sendQueue (sys_bus s)) \<longrightarrow> b_closed (sys_bus s) \<and>
       (\<not> cfg_synchronous (b_config (sys_bus s)) \<longrightarrow>
          Bus_deliver env (orBackground ctx) e (sys_bus s) = (Delivered False (Some ErrClosed) e, sys_bus s))) \<and>
    (b_stopped (sys_bus s) \<longrightarrow> eq_closed (b_sendQueue (sys_bus s)) \<and>
       Bus_Publish env ctx event (sys_bus s) = (Return (Some (ErrJoin [ErrClosed, ErrClosed])), sys_bus s) \<and>
       Bus_ReplayMissedEvents env ctx cid lastID (sys_bus s) = (Return (Some ErrClosed), sys_bus s))"
proof (intro conjI impI)
  note live = assms(2)
  show "Bus_RegisterContext env ctx cid conn options (sys_bus s) = (Return (Some ErrClosed), sys_bus s)"
    if "b_closed (sys_bus s) \<and> cid \<noteq> [] \<and> \<not> isNil conn"
    using that live by (simp add: Bus_RegisterContext_def register_arguments_def register_locked_def)
  show "Bus_deliver env (orBackground ctx) e (sys_bus s) = (Delivered False (Some ErrClosed) e, sys_bus s)"
    if "eq_closed (b_sendQueue (sys_bus s))" "\<not> cfg_synchronous (b_config (sys_bus s))"
    using that live by (simp add: Bus_deliver_def eventQueue_push_def)
  show "Bus_Publish env ctx event (sys_bus s) = (Return (Some (ErrJoin [ErrClosed, ErrClosed])), sys_bus s)"
    "Bus_ReplayMissedEvents env ctx cid lastID (sys_bus s) = (Return (Some ErrClosed), sys_bus s)" if "b_stopped (sys_bus s)"
    using that live by (simp_all add: Bus_Publish_def Bus_handle_def Bus_ReplayMissedEvents_def Let_def errors_Join_def)
qed (use reachable_closing [OF assms(1)] in auto)

theorem closed_bus_rejects_witness:
  "Bus_Publish demo_env None demo_event (sys_bus demo_closed) = (Return (Some (ErrJoin [ErrClosed, ErrClosed])), sys_bus demo_closed) \<and>
   Bus_RegisterContext demo_env None ''b'' (demo_conn 2) [] (sys_bus demo_closed) = (Return (Some ErrClosed), sys_bus demo_closed) \<and>
   Bus_deliver demo_env (orBackground None) (demo_ce 2) (sys_bus demo_closed) = (Delivered False (Some ErrClosed) (demo_ce 2), sys_bus demo_closed)"
proof -
  note R = closed_bus_rejects [OF demo_closed_reachable, of None "''b''" "demo_conn 2" demo_env "[]" "demo_ce 2" demo_event "[]"]
  have "\<not> isNil (demo_conn 2)" "orBackground None (log (sys_bus demo_closed)) = None"
    by (simp_all add: demo_conn_def orBackground_def Background_def)
  then show ?thesis using R demo_closed_facts by simp
qed

end
