(* ===== verification/Publishing.thy ===== *)
theory Publishing
  imports Scenario "HOL-Library.Sublist"
begin

text \<open>
  What publishing does: which clients receive an event, what is queued for them, what is retained for replay,
  and that nothing happens for an invalid event. The lemmas follow one iteration of the
  loop in \<^verbatim>\<open>handle\<close> on an asynchronous bus with room in its queue, then the loop.
\<close>

section \<open>One delivery to the queue\<close>

definition can_queue :: "nat \<Rightarrow> bus \<Rightarrow> bool" where
  "can_queue n b \<longleftrightarrow> queue_ok (b_sendQueue b) \<and> \<not> eq_closed (b_sendQueue b) \<and>
     eventQueue_sizeLocked (b_sendQueue b) + int n \<le> eq_capacity (b_sendQueue b) \<and>
     \<not> cfg_synchronous (b_config b) \<and> \<not> b_stopped b"

definition same_scene :: "bus \<Rightarrow> bus \<Rightarrow> bool" where
  "same_scene b b' \<longleftrightarrow> b_config b' = b_config b \<and> b_clients b' = b_clients b \<and> b_registry b' = b_registry b \<and>
     b_stopped b' = b_stopped b \<and> b_closed b' = b_closed b \<and> b_retryQueue b' = b_retryQueue b \<and> life_at b' = life_at b"

lemma same_scene_refl [simp]: "same_scene b b"
  by (simp add: same_scene_def)

lemma same_scene_trans: "same_scene a b \<Longrightarrow> same_scene b c \<Longrightarrow> same_scene a c"
  by (simp add: same_scene_def)

lemma same_scene_log_only: "log_only b b' \<Longrightarrow> same_scene b b'"
  using log_only_fields [of b b'] by (simp add: same_scene_def bus_frame_def life_at_def fun_eq_iff)

lemma life_at_fields_eq:
  assumes "life_at b' = life_at b"
  shows "inactive (heap b' c) = inactive (heap b c)" "replayGeneration (heap b' c) = replayGeneration (heap b c)"
proof -
  have "turns.more (heap b' c) = turns.more (heap b c)" using assms by (simp add: life_at_def fun_eq_iff)
  then show "inactive (heap b' c) = inactive (heap b c)" "replayGeneration (heap b' c) = replayGeneration (heap b c)"
    using life_fields by blast+
qed

lemma same_scene_client:
  "same_scene b b' \<Longrightarrow> inactive (heap b' c) = inactive (heap b c) \<and> replayGeneration (heap b' c) = replayGeneration (heap b c)"
  using life_at_fields_eq [of b' b] by (simp add: same_scene_def)

lemma can_queue_log_only: "can_queue n b \<Longrightarrow> log_only b b' \<Longrightarrow> can_queue n b'"
  using log_only_fields(1) [of b b'] by (simp add: can_queue_def bus_frame_def)

lemma can_queue_mono: "can_queue n b \<Longrightarrow> k \<le> n \<Longrightarrow> can_queue k b"
  by (simp add: can_queue_def)

lemma deliver_queues:
  assumes can: "can_queue (Suc n) b" and ctx: "\<forall>h. ctx h = None"
  obtains order b1 where "Bus_deliver env ctx e b = (Delivered False None (e\<lparr>ce_sendOrder := order\<rparr>), b1)"
    "queued (b_sendQueue b1) = queued (b_sendQueue b) @ [e\<lparr>ce_sendOrder := order\<rparr>]"
    "can_queue n b1" "same_scene b b1" "b_replayStore b1 = b_replayStore b" "log b1 = log b"
proof -
  have room: "eventQueue_sizeLocked (b_sendQueue b) < eq_capacity (b_sendQueue b)" and q: "queue_ok (b_sendQueue b)"
    and op: "\<not> eq_closed (b_sendQueue b)" using can by (simp_all add: can_queue_def)
  obtain order cl where as: "client_assignOrder (heap b (ce_client e)) = (order, cl)" by fastforce
  let ?e = "e\<lparr>ce_sendOrder := order\<rparr>"
  let ?q = "eventQueue_append ?e (b_sendQueue b)"
  let ?b = "(upd_client (ce_client e) (\<lambda>_. cl) b)\<lparr>b_sendQueue := ?q\<rparr>"
  have push: "Bus_deliver env ctx e b = (Delivered False None ?e, ?b)"
    using can room op by (simp add: Bus_deliver_def eventQueue_push_def ctx as can_queue_def Let_def)
  have app: "queue_ok ?q" "queued ?q = queued (b_sendQueue b) @ [?e]"
    using queue_ok_append [OF q room] by simp_all
  have "eventQueue_sizeLocked ?q = eventQueue_sizeLocked (b_sendQueue b) + 1"
    using length_queued [OF app(1)] length_queued [OF q] app(2) by simp
  then have "can_queue n ?b" using can app(1) by (simp add: can_queue_def)
  moreover have "turns.more cl = turns.more (heap b (ce_client e))"
    using order_ops_more(1) [of "heap b (ce_client e)"] as by simp
  then have "same_scene b ?b" by (auto simp: same_scene_def life_at_def)
  ultimately show ?thesis using that [OF push] app(2) by simp
qed

section \<open>One iteration of handle\<close>

definition eligible :: "event \<Rightarrow> string set \<Rightarrow> bus \<Rightarrow> string \<Rightarrow> bool" where
  "eligible event excluded b cid \<longleftrightarrow> cid \<notin> excluded \<and> Registry_IsSubscribed cid (ev_Name event) (b_registry b) \<and>
     (\<exists>c. b_clients b cid = Some c \<and> client_isActive c b)"

text \<open>What one queued event carries, apart from the send order it is assigned.\<close>

definition queued_for :: "client_event \<Rightarrow> string \<times> cref \<times> event \<times> message \<times> int \<times> nat" where
  "queued_for e = (ce_ClientID e, ce_client e, ce_Event e, ce_Message e, ce_attempts e, ce_generation e)"

definition delivery_to :: "event \<Rightarrow> string \<times> bool \<Rightarrow> bus \<Rightarrow> string \<Rightarrow> string \<times> cref \<times> event \<times> message \<times> int \<times> nat" where
  "delivery_to event conv b cid =
     (cid, the (b_clients b cid), event, event_message event (fst conv) (snd conv), 0,
      replayGeneration (heap b (the (b_clients b cid))))"

text \<open>The clients an event is retained for: also those that are registered but inactive.\<close>

definition retained_for :: "event \<Rightarrow> string set \<Rightarrow> bus \<Rightarrow> string \<Rightarrow> bool" where
  "retained_for event excluded b cid \<longleftrightarrow> replay_enabled (b_config b) event \<and> cid \<notin> excluded \<and>
     Registry_IsSubscribed cid (ev_Name event) (b_registry b) \<and> b_clients b cid \<noteq> None"

text \<open>The whole history of a client, what one publication adds to it, and how often and when: the time of an
  entry is read at a moment \<open>h\<close> of the call, between its start and its end.\<close>

definition retained :: "bus \<Rightarrow> string \<Rightarrow> replay_event list" where
  "retained b cid = slice_of (b_replayStore b) cid"

definition replay_entry :: "env \<Rightarrow> event \<Rightarrow> string \<times> bool \<Rightarrow> string \<Rightarrow> history \<Rightarrow> replay_event" where
  "replay_entry env event conv cid h =
     \<lparr>re_ClientID = cid, re_Event = event, re_ConvertedValue = fst conv, re_HasConverted = snd conv,
      re_StoredAt = env_now env h\<rparr>"

definition retained_more :: "env \<Rightarrow> event \<Rightarrow> string \<times> bool \<Rightarrow> bus \<Rightarrow> bus \<Rightarrow> string \<Rightarrow> nat \<Rightarrow> bool" where
  "retained_more env event conv b b' cid n \<longleftrightarrow>
     (\<exists>hs. length hs = n \<and> (\<forall>h \<in> set hs. prefix (log b) h \<and> prefix h (log b')) \<and>
       retained b' cid = retained b cid @ map (replay_entry env event conv cid) hs)"

lemma retained_more_refl: "retained b' cid = retained b cid \<Longrightarrow> retained_more env event conv b b' cid 0"
  by (simp add: retained_more_def)

lemma retained_more_trans:
  assumes "retained_more env event conv b b1 cid n" "retained_more env event conv b1 b2 cid m"
    and "prefix (log b) (log b1)" "prefix (log b1) (log b2)"
  shows "retained_more env event conv b b2 cid (n + m)"
proof -
  obtain hs hs' where
    "length hs = n" "\<forall>h \<in> set hs. prefix (log b) h \<and> prefix h (log b1)"
    "retained b1 cid = retained b cid @ map (replay_entry env event conv cid) hs"
    "length hs' = m" "\<forall>h \<in> set hs'. prefix (log b1) h \<and> prefix h (log b2)"
    "retained b2 cid = retained b1 cid @ map (replay_entry env event conv cid) hs'"
    using assms(1,2) by (auto simp: retained_more_def)
  then show ?thesis unfolding retained_more_def
    using assms(3,4) prefix_order.trans by (intro exI [of _ "hs @ hs'"]) (auto; blast)
qed

lemma retained_more_log: "retained_more env event conv b b1 cid n \<Longrightarrow> log_only b1 b2 \<Longrightarrow> retained_more env event conv b b2 cid n"
  using log_only_fields(1) [of b1 b2] by (fastforce simp: retained_more_def log_only_def retained_def bus_frame_def)

lemma log_only_prefix: "log_only b b' \<Longrightarrow> prefix (log b) (log b')"
  by (auto simp: log_only_def)

lemma retained_scene: "same_scene b b' \<Longrightarrow> retained_for ev ex b' cid = retained_for ev ex b cid"
  by (simp add: retained_for_def same_scene_def)

lemma slice_of_Store:
  "slice_of (ReplayStore_Store e s) = (slice_of s)(re_ClientID e := slice_of s (re_ClientID e) @ [normalizeReplay e])"
  by (rule ext) (simp add: slice_of_def ReplayStore_Store_def Let_def)

lemma eligible_scene: "same_scene b b' \<Longrightarrow> eligible ev ex b' cid = eligible ev ex b cid"
  using same_scene_client [of b b'] by (auto simp: eligible_def same_scene_def client_isActive_def)

lemma delivery_to_scene: "same_scene b b' \<Longrightarrow> delivery_to ev conv b' cid = delivery_to ev conv b cid"
  using same_scene_client [of b b'] by (simp add: delivery_to_def same_scene_def)

lemma handle_client_queues:
  assumes can: "can_queue (Suc n) b" and ctx: "\<forall>h. ctx h = None"
    and ev: "normalized event" and conv: "Bus_convert env (b_config b) event = Inr conv" and l: "hl_converted l = None \<or> hl_converted l = Some conv"
  obtains l1 b1 where "handle_client env ctx oper event direct ex cid l b = (HNext l1, b1)"
    "hl_converted l1 = None \<or> hl_converted l1 = Some conv" "hl_deliveryErrors l1 = hl_deliveryErrors l"
    "hl_deliveryCount l1 = hl_deliveryCount l + (if eligible event ex b cid then 1 else 0)"
    "map queued_for (queued (b_sendQueue b1)) = map queued_for (queued (b_sendQueue b)) @
       (if eligible event ex b cid then [delivery_to event conv b cid] else [])"
    "\<forall>c. retained_more env event conv b b1 c (if retained_for event ex b cid \<and> cid = c then 1 else 0)"
    "can_queue n b1" "same_scene b b1" "prefix (log b) (log b1)"
proof -
  have can0: "can_queue n b" using can_queue_mono [OF can] by simp
  have running: "\<not> b_stopped b" "\<not> cfg_synchronous (b_config b)" using can by (simp_all add: can_queue_def)
  show ?thesis
  proof (cases "cid \<in> ex \<or> \<not> Registry_IsSubscribed cid (ev_Name event) (b_registry b) \<or> b_clients b cid = None")
    case True
    have "handle_client env ctx oper event direct ex cid l b = (HNext l, b)"
      using True by (auto simp: handle_client_def)
    moreover have "\<not> eligible event ex b cid" "\<not> retained_for event ex b cid"
      using True by (auto simp: eligible_def retained_for_def)
    ultimately show ?thesis using that [of l b] l can0 by (simp add: retained_more_refl)
  next
    case False
    then obtain target where sub: "cid \<notin> ex" "Registry_IsSubscribed cid (ev_Name event) (b_registry b)" "b_clients b cid = Some target"
      by blast
    define l1 where "l1 = l\<lparr>hl_converted := Some conv\<rparr>"
    have hc: "handle_client env ctx oper event direct ex cid l b = handle_deliver env ctx oper event direct cid target conv l1 b"
      using sub l conv running ctx by (auto simp: handle_client_def l1_def)
    define e where "e = new_client_event cid event (event_message event (fst conv) (snd conv)) target (replayGeneration (heap b target))"
    define b1 where "b1 = (if replay_enabled (b_config b) event
        then b\<lparr>b_replayStore := ReplayStore_Store \<lparr>re_ClientID = cid, re_Event = event, re_ConvertedValue = fst conv,
             re_HasConverted = snd conv, re_StoredAt = env_now env (log b)\<rparr> (b_replayStore b)\<rparr> else b)"
    have b1: "same_scene b b1" "can_queue (Suc n) b1" "b_sendQueue b1 = b_sendQueue b"
      using can by (simp_all add: b1_def same_scene_def can_queue_def)
    have "log b1 = log b" by (simp add: b1_def)
    have "retained b1 c = retained b c @
        (if retained_for event ex b cid \<and> cid = c then [replay_entry env event conv cid (log b)] else [])" for c
      using sub ev by (auto simp: b1_def retained_def retained_for_def slice_of_Store normalizeReplay_id replay_entry_def)
    then have st: "retained_more env event conv b b1 c (if retained_for event ex b cid \<and> cid = c then 1 else 0)" for c
      unfolding retained_more_def using \<open>log b1 = log b\<close>
      by (intro exI [of _ "if retained_for event ex b cid \<and> cid = c then [log b] else []"]) auto
    have active: "client_isActive target b1 = client_isActive target b" by (simp add: b1_def)
    show ?thesis
    proof (cases "client_isActive target b")
      case False
      then have "handle_deliver env ctx oper event direct cid target conv l1 b = (HNext l1, b1)"
        using active by (simp add: handle_deliver_def Let_def b1_def [symmetric])
      moreover have "\<not> eligible event ex b cid" using False sub by (simp add: eligible_def)
      ultimately show ?thesis
        using that [of l1 b1] hc b1 st can_queue_mono [OF b1(2), of n] \<open>log b1 = log b\<close> by (simp add: l1_def)
    next
      case True
      obtain order b2 where d: "Bus_deliver env ctx e b1 = (Delivered False None (e\<lparr>ce_sendOrder := order\<rparr>), b2)"
        "queued (b_sendQueue b2) = queued (b_sendQueue b1) @ [e\<lparr>ce_sendOrder := order\<rparr>]" "can_queue n b2" "same_scene b1 b2" "b_replayStore b2 = b_replayStore b1" "log b2 = log b1"
        by (rule deliver_queues [OF b1(2) ctx])
      let ?l = "l1\<lparr>hl_deliveryCount := hl_deliveryCount l1 + 1\<rparr>"
      let ?b = "Bus_notifyQueued env (e\<lparr>ce_sendOrder := order\<rparr>) True b2"
      have "handle_deliver env ctx oper event direct cid target conv l1 b = (HNext ?l, ?b)"
        unfolding handle_deliver_def Let_def e_def [symmetric] b1_def [symmetric]
        using True active by (simp add: d(1))
      moreover have "b_sendQueue ?b = b_sendQueue b2" using log_only_fields(1) [OF log_only_notifyQueued] by (simp add: bus_frame_def)
      moreover have "prefix (log b) (log ?b)" using log_only_prefix [OF log_only_notifyQueued] d(6) \<open>log b1 = log b\<close> by metis
      moreover have "retained_more env event conv b ?b c (if retained_for event ex b cid \<and> cid = c then 1 else 0)" for c
        by (rule retained_more_log [OF _ log_only_notifyQueued]) (use st [of c] d(5,6) in \<open>simp add: retained_more_def retained_def\<close>)
      moreover have "eligible event ex b cid" using True sub by (simp add: eligible_def)
      moreover have "queued_for (e\<lparr>ce_sendOrder := order\<rparr>) = delivery_to event conv b cid"
        by (simp add: queued_for_def delivery_to_def e_def new_client_event_def sub(3))
      moreover have "same_scene b ?b"
        using same_scene_trans [OF same_scene_trans [OF b1(1) d(4)] same_scene_log_only [OF log_only_notifyQueued]] .
      moreover have "can_queue n ?b" using can_queue_log_only [OF d(3) log_only_notifyQueued] .
      ultimately show ?thesis using that [of ?l ?b] hc d(2) b1(3) by (simp add: l1_def)
    qed
  qed
qed

section \<open>The loop\<close>

lemma count_list_filter_Cons:
  "count_list (filter P (x # xs)) y = (if P x \<and> x = y then 1 else 0) + count_list (filter P xs) y"
  by auto

lemma distinct_count_list: "distinct xs \<Longrightarrow> count_list xs x = (if x \<in> set xs then 1 else 0)"
  by (induction xs) (auto simp: count_list_0_iff)

lemma handle_loop_queues:
  assumes "can_queue (length ids) b" "\<forall>h. ctx h = None" "normalized event" "Bus_convert env (b_config b) event = Inr conv"
    and "hl_converted l = None \<or> hl_converted l = Some conv" "hl_deliveryErrors l = []"
  shows "\<exists>b1. handle_loop env ctx oper event direct ex ids l b =
      (Return None, Bus_observe env (handle_observation (b_config b) oper event direct
         (hl_deliveryCount l + int (length (filter (eligible event ex b) ids))) None) b1) \<and>
    map queued_for (queued (b_sendQueue b1)) =
      map queued_for (queued (b_sendQueue b)) @ map (delivery_to event conv b) (filter (eligible event ex b) ids) \<and>
    (\<forall>c. retained_more env event conv b b1 c (count_list (filter (retained_for event ex b) ids) c)) \<and>
    same_scene b b1 \<and> prefix (log b) (log b1)"
  using assms
proof (induction ids arbitrary: l b)
  case Nil
  then show ?case by (intro exI [of _ b]) (simp add: Let_def retained_more_refl)
next
  case (Cons cid ids)
  have can: "can_queue (Suc (length ids)) b" using Cons.prems(1) by simp
  obtain l1 b1 where hc: "handle_client env ctx oper event direct ex cid l b = (HNext l1, b1)"
    and l1: "hl_converted l1 = None \<or> hl_converted l1 = Some conv" "hl_deliveryErrors l1 = hl_deliveryErrors l"
    "hl_deliveryCount l1 = hl_deliveryCount l + (if eligible event ex b cid then 1 else 0)"
    and q: "map queued_for (queued (b_sendQueue b1)) = map queued_for (queued (b_sendQueue b)) @
       (if eligible event ex b cid then [delivery_to event conv b cid] else [])"
    and st: "\<forall>c. retained_more env event conv b b1 c (if retained_for event ex b cid \<and> cid = c then 1 else 0)"
    and b1: "can_queue (length ids) b1" "same_scene b b1" "prefix (log b) (log b1)"
    by (rule handle_client_queues [OF can Cons.prems(2-5)])
  have cfg: "b_config b1 = b_config b" using b1(2) by (simp add: same_scene_def)
  have same: "eligible event ex b1 = eligible event ex b" "delivery_to event conv b1 = delivery_to event conv b"
    "retained_for event ex b1 = retained_for event ex b"
    using eligible_scene [OF b1(2)] delivery_to_scene [OF b1(2)] retained_scene [OF b1(2)] by (simp_all add: fun_eq_iff)
  obtain b2 where "handle_loop env ctx oper event direct ex ids l1 b1 =
      (Return None, Bus_observe env (handle_observation (b_config b) oper event direct
         (hl_deliveryCount l1 + int (length (filter (eligible event ex b) ids))) None) b2)"
    "map queued_for (queued (b_sendQueue b2)) =
      map queued_for (queued (b_sendQueue b1)) @ map (delivery_to event conv b) (filter (eligible event ex b) ids)"
    "\<forall>c. retained_more env event conv b1 b2 c (count_list (filter (retained_for event ex b) ids) c)"
    "same_scene b1 b2" "prefix (log b1) (log b2)"
    using Cons.IH [OF b1(1) Cons.prems(2), of l1] Cons.prems(3,4,6) l1(1,2) unfolding cfg same by auto
  moreover have "retained_more env event conv b b2 c (count_list (filter (retained_for event ex b) (cid # ids)) c)" for c
    unfolding count_list_filter_Cons
    by (rule retained_more_trans [OF spec [OF st] _ b1(3)]) (use calculation(3,5) in simp_all)
  ultimately show ?case using hc l1(3) q same_scene_trans [OF b1(2)] prefix_order.trans [OF b1(3)]
    by (intro exI [of _ b2]; cases "eligible event ex b cid") (auto simp: add_ac)
qed

section \<open>Publishing an event\<close>

definition excluded_ids :: "event \<Rightarrow> string set" where
  "excluded_ids event = (if ev_ClientIDs event = [] then set (ev_ExcludeClientIDs event) else {})"

lemma handle_ids_spec:
  assumes "enumerates (env_range env (log b))" "registry_ok (b_registry b)"
  shows "distinct (handle_ids env event b)"
    "cid \<in> set (handle_ids env event b) \<longleftrightarrow>
       (if ev_ClientIDs event = [] then Registry_IsSubscribed cid (ev_Name (normalizeEvent event)) (b_registry b)
        else cid \<in> set (ev_ClientIDs event))"
  using assms by (auto simp: handle_ids_def Let_def distinct_Subscribers set_Subscribers)

lemma handle_queues:
  assumes "can_queue (length (handle_ids env event b)) b" "\<forall>h. ctx h = None" "validateEvent event = None"
    and "Bus_convert env (b_config b) (normalizeEvent event) = Inr conv"
  defines "ev \<equiv> normalizeEvent event" and "ex \<equiv> excluded_ids event"
  shows "\<exists>b1. Bus_handle env ctx event oper b =
      (Return None, Bus_observe env (handle_observation (b_config b) oper ev (ev_ClientIDs event \<noteq> [])
         (int (length (filter (eligible ev ex b) (handle_ids env event b)))) None) b1) \<and>
    map queued_for (queued (b_sendQueue b1)) =
      map queued_for (queued (b_sendQueue b)) @ map (delivery_to ev conv b) (filter (eligible ev ex b) (handle_ids env event b)) \<and>
    (\<forall>c. retained_more env ev conv b b1 c (count_list (filter (retained_for ev ex b) (handle_ids env event b)) c)) \<and>
    same_scene b b1 \<and> prefix (log b) (log b1)"
proof -
  let ?l = "\<lparr>hl_converted = None, hl_deliveryCount = 0, hl_deliveryErrors = []\<rparr>"
  have "\<not> b_stopped b" using assms(1) by (simp add: can_queue_def)
  then have "Bus_handle env ctx event oper b =
      handle_loop env ctx oper ev (ev_ClientIDs event \<noteq> []) ex (handle_ids env event b) ?l b"
    using assms(3) by (simp add: Bus_handle_def Let_def ev_def ex_def excluded_ids_def handle_ids_def)
  then show ?thesis
    using handle_loop_queues [OF assms(1,2) _ assms(4), where l = ?l and oper = oper and direct = "ev_ClientIDs event \<noteq> []" and ex = ex]
    by (simp add: ev_def)
qed

text \<open>C8. Who gets a published event: on an asynchronous bus with room in the send queue, a valid
  convertible event is queued exactly once for every client that is registered, active,
  subscribed and not excluded (and named, when the event names clients), in that order after what is
  already queued, with the converted message and no attempt made; the observation reports
  success and that number of deliveries, and clients and subscriptions stay as they are.\<close>

theorem publish_targets:
  assumes "can_queue (length (handle_ids env event b)) b" "\<forall>h. ctx h = None" "validateEvent event = None"
    and "Bus_convert env (b_config b) (normalizeEvent event) = Inr conv"
    and "enumerates (env_range env (log b))" "registry_ok (b_registry b)"
  shows "\<exists>b1 targets. Bus_handle env ctx event oper b =
      (Return None, Bus_observe env (handle_observation (b_config b) oper (normalizeEvent event) (ev_ClientIDs event \<noteq> [])
         (int (length targets)) None) b1) \<and>
    map queued_for (queued (b_sendQueue b1)) =
      map queued_for (queued (b_sendQueue b)) @ map (delivery_to (normalizeEvent event) conv b) targets \<and>
    distinct targets \<and>
    (\<forall>cid. cid \<in> set targets \<longleftrightarrow> eligible (normalizeEvent event) (excluded_ids event) b cid \<and>
       (ev_ClientIDs event = [] \<or> cid \<in> set (ev_ClientIDs event))) \<and>
    same_scene b b1"
proof -
  let ?ts = "filter (eligible (normalizeEvent event) (excluded_ids event) b) (handle_ids env event b)"
  have "distinct ?ts" using handle_ids_spec(1) [OF assms(5,6)] by simp
  moreover have "cid \<in> set ?ts \<longleftrightarrow> eligible (normalizeEvent event) (excluded_ids event) b cid \<and>
       (ev_ClientIDs event = [] \<or> cid \<in> set (ev_ClientIDs event))" for cid
    using handle_ids_spec(2) [OF assms(5,6), of cid event] by (auto simp: eligible_def)
  moreover obtain b1 where "Bus_handle env ctx event oper b =
      (Return None, Bus_observe env (handle_observation (b_config b) oper (normalizeEvent event) (ev_ClientIDs event \<noteq> [])
         (int (length ?ts)) None) b1)"
    "map queued_for (queued (b_sendQueue b1)) =
      map queued_for (queued (b_sendQueue b)) @ map (delivery_to (normalizeEvent event) conv b) ?ts" "same_scene b b1"
    using handle_queues [OF assms(1-4), where oper = oper] by blast
  ultimately show ?thesis by (intro exI [of _ b1] exI [of _ ?ts]) simp
qed

theorem publish_targets_witness:
  "\<exists>b1 targets. Bus_handle demo_env Background demo_event OperationHandleEvent demo_bus2 =
      (Return None, Bus_observe demo_env (handle_observation (b_config demo_bus2) OperationHandleEvent (normalizeEvent demo_event)
         (ev_ClientIDs demo_event \<noteq> []) (int (length targets)) None) b1) \<and>
    map queued_for (queued (b_sendQueue b1)) =
      map queued_for (queued (b_sendQueue demo_bus2)) @ map (delivery_to (normalizeEvent demo_event) (''hi'', True) demo_bus2) targets \<and>
    distinct targets \<and>
    (\<forall>cid. cid \<in> set targets \<longleftrightarrow> eligible (normalizeEvent demo_event) (excluded_ids demo_event) demo_bus2 cid \<and>
       (ev_ClientIDs demo_event = [] \<or> cid \<in> set (ev_ClientIDs demo_event))) \<and>
    same_scene demo_bus2 b1"
proof (rule publish_targets)
  show "can_queue (length (handle_ids demo_env demo_event demo_bus2)) demo_bus2"
    by (simp add: can_queue_def handle_ids_def demo_normal demo_bus2_eq demo_bus1_eq demo_bus0_def initial_bus_def
        newEventQueue_def queue_ok_def eventQueue_sizeLocked_def defaultConfig_def)
  show "registry_ok (b_registry demo_bus2)" by (simp add: demo_bus2_eq demo_bus1_eq registry_ok_def)
qed (simp_all add: Background_def demo_valid demo_normal Bus_convert_def demo_env_range)

text \<open>C9. Retention for replay: when an asynchronous bus with room in its send queue and a replay store handles a valid, convertible
  event that has an ID, with a context that does not end, the replay store gains exactly one entry for every registered,
  subscribed, not excluded client (and named, when the event names clients), also when the client is inactive
  (disconnected): the client's ID, the normalised event, the converted text, whether there is any, and the time read during the
  call, after what is already retained for the client. It gains nothing for any other client, and nothing at all
  without a replay store or without an event ID.\<close>

theorem publish_retains:
  assumes "can_queue (length (handle_ids env event b)) b" "\<forall>h. ctx h = None" "validateEvent event = None"
    and "Bus_convert env (b_config b) (normalizeEvent event) = Inr conv"
    and "enumerates (env_range env (log b))" "registry_ok (b_registry b)"
    and b': "Bus_handle env ctx event oper b = (r, b')"
  shows "if cfg_replayStore (b_config b) \<noteq> None \<and> ev_ID event \<noteq> [] \<and> b_clients b cid \<noteq> None \<and>
        Registry_IsSubscribed cid (ev_Name (normalizeEvent event)) (b_registry b) \<and>
        (if ev_ClientIDs event = [] then cid \<notin> set (ev_ExcludeClientIDs event) else cid \<in> set (ev_ClientIDs event))
     then (\<exists>h. prefix (log b) h \<and> prefix h (log b') \<and>
        slice_of (b_replayStore b') cid = slice_of (b_replayStore b) cid @
          [\<lparr>re_ClientID = cid, re_Event = normalizeEvent event, re_ConvertedValue = fst conv, re_HasConverted = snd conv,
            re_StoredAt = env_now env h\<rparr>])
     else slice_of (b_replayStore b') cid = slice_of (b_replayStore b) cid"
proof -
  let ?P = "retained_for (normalizeEvent event) (excluded_ids event) b"
  let ?named = "if ev_ClientIDs event = [] then cid \<notin> set (ev_ExcludeClientIDs event) else cid \<in> set (ev_ClientIDs event)"
  have "count_list (filter ?P (handle_ids env event b)) cid = (if ?P cid \<and> (ev_ClientIDs event = [] \<or> cid \<in> set (ev_ClientIDs event)) then 1 else 0)"
    using handle_ids_spec(2) [OF assms(5,6), of cid event] handle_ids_spec(1) [OF assms(5,6), of event]
    by (auto simp: retained_for_def distinct_count_list)
  moreover have "?P cid \<and> (ev_ClientIDs event = [] \<or> cid \<in> set (ev_ClientIDs event)) \<longleftrightarrow>
      cfg_replayStore (b_config b) \<noteq> None \<and> ev_ID event \<noteq> [] \<and> b_clients b cid \<noteq> None \<and>
      Registry_IsSubscribed cid (ev_Name (normalizeEvent event)) (b_registry b) \<and> ?named"
    by (auto simp: retained_for_def excluded_ids_def replay_enabled_def)
  moreover have "retained_more env (normalizeEvent event) conv b b' cid (count_list (filter ?P (handle_ids env event b)) cid)"
    using handle_queues [OF assms(1-4), where oper = oper] b' retained_more_log [OF _ log_only_observe] by (metis prod.inject)
  ultimately show ?thesis
    by (auto simp: retained_more_def replay_entry_def retained_def length_Suc_conv split: if_splits)
qed

text \<open>A bus with a replay store, and an event with an ID.\<close>

definition demo_store_bus :: bus where
  "demo_store_bus = demo_bus1\<lparr>b_config := (b_config demo_bus1)\<lparr>cfg_replayStore := default_registry\<rparr>\<rparr>"

definition demo_id_event :: event where
  "demo_id_event = demo_event\<lparr>ev_ID := ''7''\<rparr>"

lemma demo_id_event_facts:
  "normalizeEvent demo_id_event = demo_id_event" "normalized demo_id_event" "validateEvent demo_id_event = None"
  "ev_ClientIDs demo_id_event = [''a'']" "ev_Name demo_id_event = ''x''" "ev_Data demo_id_event = StringData ''hi''"
  "ev_ID demo_id_event = ''7''"
proof -
  show norm: "normalized demo_id_event"
    by (simp add: demo_id_event_def normalized_def) (simp add: demo_event_def NewNamedEventWithData_def)
  show "normalizeEvent demo_id_event = demo_id_event" by (rule normalizeEvent_id [OF norm])
  show "validateEvent demo_id_event = None"
    using demo_valid by (simp add: demo_id_event_def validateEvent_def ContainsAny_def split: if_splits)
qed (simp_all add: demo_id_event_def)

lemma demo_store_bus_facts:
  "b_clients demo_store_bus = [''a'' \<mapsto> 0]" "cfg_replayStore (b_config demo_store_bus) \<noteq> None"
  "b_registry demo_store_bus = \<lparr>subs = [''x'' \<mapsto> {''a''}]\<rparr>" "b_replayStore demo_store_bus = NewMemoryReplayStore"
  by (simp_all add: demo_store_bus_def demo_bus1_eq demo_bus0_def initial_bus_def default_registry_def)

lemma demo_store_bus_room: "n \<le> 10000 \<Longrightarrow> can_queue n demo_store_bus"
  by (simp add: can_queue_def demo_store_bus_def demo_bus1_eq demo_bus0_def initial_bus_def newEventQueue_def
      queue_ok_def eventQueue_sizeLocked_def defaultConfig_def)

theorem publish_retains_witness:
  "slice_of (b_replayStore (snd (Bus_handle demo_env Background demo_id_event OperationHandleEvent demo_store_bus))) ''a'' =
     [\<lparr>re_ClientID = ''a'', re_Event = demo_id_event, re_ConvertedValue = ''hi'', re_HasConverted = True, re_StoredAt = 0\<rparr>]"
proof -
  obtain r b' where b': "Bus_handle demo_env Background demo_id_event OperationHandleEvent demo_store_bus = (r, b')" by fastforce
  have room: "can_queue (length (handle_ids demo_env demo_id_event demo_store_bus)) demo_store_bus"
    by (rule demo_store_bus_room) (simp add: handle_ids_def demo_id_event_facts)
  have "registry_ok (b_registry demo_store_bus)" by (simp add: demo_store_bus_facts registry_ok_def)
  from publish_retains [OF room _ demo_id_event_facts(3) _ _ this b', of "(''hi'', True)" "''a''"] show ?thesis
    using b'
    by (auto simp: Background_def demo_id_event_facts demo_store_bus_facts Bus_convert_def demo_env_range Registry_IsSubscribed_def
        slice_of_def NewMemoryReplayStore_def demo_env_def)
qed

text \<open>C10. On a bus that is not stopped, and with a live context, publishing an invalid event (a line break in its name, a
  line break or null in its ID, or a negative retry) is refused with \<^verbatim>\<open>ErrInvalidEvent\<close>: nothing is
  queued, stored, converted or published to other nodes; the only effect is the error observation.\<close>

theorem invalid_event_refused:
  assumes "CR \<in> set (ev_Name event) \<or> LF \<in> set (ev_Name event) \<or>
      NUL \<in> set (ev_ID event) \<or> CR \<in> set (ev_ID event) \<or> LF \<in> set (ev_ID event) \<or> ev_Retry event < 0"
    and "\<not> b_stopped b" "orBackground ctx (log b) = None"
  shows "\<exists>x. errors_Is x ErrInvalidEvent \<and>
    Bus_Publish env ctx event b = (Return (Some x), Bus_observe env ((zero_observation OperationHandleEvent ''error'')
       \<lparr>obs_EventName := ev_Name (normalizeEvent event), obs_Err := Some x\<rparr>) b)"
proof -
  have "validateEvent event \<noteq> None" unfolding validateEvent_None_iff using assms(1) by auto
  then obtain x where x: "validateEvent event = Some x" by blast
  then show ?thesis using assms(2,3) validateEvent_err [OF x] by (simp add: Bus_Publish_def Bus_handle_def Let_def)
qed

theorem invalid_event_refused_witness:
  "\<exists>x. errors_Is x ErrInvalidEvent \<and>
     Bus_Publish demo_env None (demo_event\<lparr>ev_ID := [NUL]\<rparr>) demo_bus2 = (Return (Some x), demo_bus2)"
proof -
  have "\<not> b_stopped demo_bus2" "cfg_observer (b_config demo_bus2) = None"
    by (simp_all add: demo_bus2_eq demo_bus1_eq demo_bus0_def initial_bus_def defaultConfig_def)
  then show ?thesis using invalid_event_refused [of "demo_event\<lparr>ev_ID := [NUL]\<rparr>" demo_bus2 None demo_env]
    by (simp add: orBackground_def Background_def Bus_observe_def)
qed

end
