(* ===== verification/Replaying.thy ===== *)
theory Replaying
  imports Publishing
begin

text \<open>
  What a replay delivers: on an asynchronous bus with room in its queue, exactly the retained events after
  the client's cursor that are young enough and still subscribed, in stored order, in place of the
  replayable events that were pending for the client.
\<close>

definition replays :: "string \<Rightarrow> instant \<Rightarrow> bus \<Rightarrow> replay_event \<Rightarrow> bool" where
  "replays cid cutoff b re \<longleftrightarrow> cutoff \<le> re_StoredAt re \<and>
     Registry_IsSubscribed cid (ev_Name (normalizeEvent (re_Event re))) (b_registry b)"

definition replay_of :: "string \<Rightarrow> cref \<Rightarrow> nat \<Rightarrow> replay_event \<Rightarrow> string \<times> cref \<times> event \<times> message \<times> int \<times> nat" where
  "replay_of cid target generation re =
     (let ev = normalizeEvent (re_Event re)
      in (cid, target, ev, event_message ev (re_ConvertedValue re) (re_HasConverted re), 0, generation))"

lemma replays_scene: "same_scene b b' \<Longrightarrow> replays cid t b' = replays cid t b"
  by (simp add: replays_def same_scene_def fun_eq_iff)

lemma replay_loop_queues:
  assumes "can_queue (length es) b" "\<forall>h. ctx h = None" "client_isActive target b"
    and "\<forall>re \<in> set es. validateEvent (re_Event re) = None"
  shows "\<exists>b1 ns1. replay_loop env ctx cid target g cutoff es obs ns [] b =
      (Return (obs\<lparr>obs_DeliveryCount := obs_DeliveryCount obs + int (length (filter (replays cid cutoff b) es)),
                   obs_Outcome := ''success''\<rparr>, ns @ ns1, None), b1) \<and>
    length ns1 = length (filter (replays cid cutoff b) es) \<and> (\<forall>n \<in> set ns1. \<not> dn_sent n \<and> dn_err n = None) \<and>
    map queued_for (queued (b_sendQueue b1)) =
      map queued_for (queued (b_sendQueue b)) @ map (replay_of cid target g) (filter (replays cid cutoff b) es) \<and>
    same_scene b b1 \<and> b_replayStore b1 = b_replayStore b \<and> log b1 = log b"
  using assms
proof (induction es arbitrary: obs ns b)
  case Nil
  then show ?case by (intro exI [of _ b] exI [of _ "[]"]) (simp add: replay_finish_def)
next
  case (Cons re es)
  have can: "can_queue (Suc (length es)) b" using Cons.prems(1) by simp
  show ?case
  proof (cases "replays cid cutoff b re")
    case False
    then have "replay_loop env ctx cid target g cutoff (re # es) obs ns [] b =
        replay_loop env ctx cid target g cutoff es obs ns [] b"
      using Cons.prems(3) by (auto simp: replays_def Let_def)
    then show ?thesis using Cons.IH [OF can_queue_mono [OF can] Cons.prems(2,3), of obs ns] Cons.prems(4) False by simp
  next
    case True
    let ?ev = "normalizeEvent (re_Event re)"
    define e where "e = new_client_event cid ?ev (event_message ?ev (re_ConvertedValue re) (re_HasConverted re)) target g"
    obtain order b1 where d: "Bus_deliver env ctx e b = (Delivered False None (e\<lparr>ce_sendOrder := order\<rparr>), b1)"
      "queued (b_sendQueue b1) = queued (b_sendQueue b) @ [e\<lparr>ce_sendOrder := order\<rparr>]"
      "can_queue (length es) b1" "same_scene b b1" "b_replayStore b1 = b_replayStore b" "log b1 = log b"
      by (rule deliver_queues [OF can Cons.prems(2)])
    let ?n = "\<lparr>dn_event = e\<lparr>ce_sendOrder := order\<rparr>, dn_sent = False, dn_err = None\<rparr>"
    let ?obs = "obs\<lparr>obs_DeliveryCount := obs_DeliveryCount obs + 1\<rparr>"
    have loop: "replay_loop env ctx cid target g cutoff (re # es) obs ns [] b =
        replay_loop env ctx cid target g cutoff es ?obs (ns @ [?n]) [] b1"
      using True Cons.prems(3,4) unfolding replay_loop.simps Let_def e_def [symmetric] d(1) by (simp add: replays_def)
    have q: "queued_for (e\<lparr>ce_sendOrder := order\<rparr>) = replay_of cid target g re"
      by (simp add: queued_for_def replay_of_def e_def new_client_event_def Let_def)
    have act: "client_isActive target b1" using Cons.prems(3) same_scene_client [OF d(4)] by (simp add: client_isActive_def)
    have valid: "\<forall>re \<in> set es. validateEvent (re_Event re) = None" using Cons.prems(4) by simp
    obtain b2 ns2 where IH: "replay_loop env ctx cid target g cutoff es ?obs (ns @ [?n]) [] b1 =
      (Return (?obs\<lparr>obs_DeliveryCount := obs_DeliveryCount ?obs + int (length (filter (replays cid cutoff b) es)),
                   obs_Outcome := ''success''\<rparr>, (ns @ [?n]) @ ns2, None), b2)"
      "length ns2 = length (filter (replays cid cutoff b) es)" "\<forall>n \<in> set ns2. \<not> dn_sent n \<and> dn_err n = None"
      "map queued_for (queued (b_sendQueue b2)) =
        map queued_for (queued (b_sendQueue b1)) @ map (replay_of cid target g) (filter (replays cid cutoff b) es)"
      "same_scene b1 b2" "b_replayStore b2 = b_replayStore b1" "log b2 = log b1"
      using Cons.IH [OF d(3) Cons.prems(2) act valid, of ?obs "ns @ [?n]"] unfolding replays_scene [OF d(4)] by blast
    show ?thesis
      using loop IH d(2,5,6) q True same_scene_trans [OF d(4) IH(5)]
      by (intro exI [of _ b2] exI [of _ "?n # ns2"]) (simp add: add_ac)
  qed
qed

text \<open>The state in which the replay loop starts: a new replay generation, and the replayable events
  that were pending for the client gone.\<close>

definition replay_state :: "cref \<Rightarrow> bus \<Rightarrow> bus" where
  "replay_state target b = Bus_removePending target True
     (upd_client target (\<lambda>cl. cl\<lparr>replayGeneration := wrap_uint64 (replayGeneration (heap b target) + 1)\<rparr>) b)"

lemma replay_state_fields:
  "b_config (replay_state t b) = b_config b" "b_clients (replay_state t b) = b_clients b"
  "b_registry (replay_state t b) = b_registry b" "b_replayStore (replay_state t b) = b_replayStore b"
  "log (replay_state t b) = log b" "client_isActive c (replay_state t b) = client_isActive c b"
  "b_stopped (replay_state t b) = b_stopped b"
  "b_sendQueue (replay_state t b) = eventQueue_filter (pending_match t True) (b_sendQueue b)"
  "b_retryQueue (replay_state t b) = retryQueue_remove (pending_match t True) (b_retryQueue b)"
proof -
  have "inactive (heap (replay_state t b) c) = inactive (heap b c)"
    using life_at_fields_eq(1) [OF removePending_fields(10)] by (simp add: replay_state_def)
  then show "client_isActive c (replay_state t b) = client_isActive c b" by (simp add: client_isActive_def)
qed (simp_all add: replay_state_def)

lemma can_queue_replay_state:
  assumes "can_queue n b"
  shows "can_queue n (replay_state t b)"
proof -
  let ?q = "eventQueue_filter (pending_match t True) (b_sendQueue b)"
  have q: "queue_ok (b_sendQueue b)" using assms by (simp add: can_queue_def)
  note f = queue_ok_filter [OF q, of "pending_match t True"]
  have "length (queued ?q) \<le> length (queued (b_sendQueue b))" by (simp add: f(2))
  then have "eventQueue_sizeLocked ?q \<le> eventQueue_sizeLocked (b_sendQueue b)"
    using length_queued [OF q] length_queued [OF f(1)] by linarith
  then show ?thesis using assms f(1) by (simp add: can_queue_def replay_state_fields)
qed

text \<open>C19. Replay delivers exactly the missed events: on an asynchronous bus with a replay store of valid events and room for them in
  the send queue, and with a context that does not end, a replay for an active client succeeds. The client's replayable events
  (those with an ID) are dropped from the send queue and from the retry queue, and the retained events after the cursor (all of them
  when the cursor is empty or unknown) that are within the retention and still subscribed are queued in stored
  order under a new replay generation; the observation counts them, and the store, the subscriptions and the client
  table do not change.\<close>

theorem replay_delivers_missed:
  assumes "b_clients b cid = Some target" "client_isActive target b" "cfg_replayStore (b_config b) \<noteq> None"
    and "store_ok (b_replayStore b)" "\<forall>h. ctx h = None"
    and "can_queue (length (ReplayStore_EventsSince cid lastID (b_replayStore b))) b"
    and "\<forall>re \<in> set (slice_of (b_replayStore b) cid). validateEvent (re_Event re) = None" "retry_queue_ok (b_retryQueue b)"
  shows "\<exists>b1 ns obs missed. Bus_replayMissedEventsLocked env ctx cid lastID b = (Return (obs, ns, None), b1) \<and>
    missed = filter (replays cid (env_now env (log b) - cfg_replayRetention (b_config b)) b)
      (if lastID = [] then slice_of (b_replayStore b) cid else after_last lastID (slice_of (b_replayStore b) cid)) \<and>
    obs_Outcome obs = ''success'' \<and> obs_DeliveryCount obs = int (length missed) \<and> length ns = length missed \<and>
    map queued_for (queued (b_sendQueue b1)) =
      map queued_for (filter (\<lambda>e. \<not> (ce_client e = target \<and> ev_ID (ce_Event e) \<noteq> [])) (queued (b_sendQueue b))) @
      map (replay_of cid target (wrap_uint64 (replayGeneration (heap b target) + 1))) missed \<and>
    set (rq_items (b_retryQueue b1)) =
      {e \<in> set (rq_items (b_retryQueue b)). \<not> (ce_client e = target \<and> ev_ID (ce_Event e) \<noteq> [])} \<and>
    b_clients b1 = b_clients b \<and> b_registry b1 = b_registry b \<and> b_replayStore b1 = b_replayStore b"
proof -
  let ?s = "replay_state target b" and ?es = "ReplayStore_EventsSince cid lastID (b_replayStore b)"
  let ?t = "env_now env (log b) - cfg_replayRetention (b_config b)"
  let ?g = "wrap_uint64 (replayGeneration (heap b target) + 1)"
  let ?obs = "replay_observation [] cid lastID"
  have es: "?es = (if lastID = [] then slice_of (b_replayStore b) cid else after_last lastID (slice_of (b_replayStore b) cid))"
    by (rule EventsSince_history [OF assms(4)])
  have "set ?es \<subseteq> set (slice_of (b_replayStore b) cid)"
    unfolding es by (auto simp: after_last_def dest: set_takeWhileD split: if_splits)
  then have valid: "\<forall>re \<in> set ?es. validateEvent (re_Event re) = None" using assms(7) by blast
  have can: "can_queue (length ?es) ?s" using can_queue_replay_state [OF assms(6)] .
  have act: "client_isActive target ?s" using assms(2) by (simp add: replay_state_fields)
  have eq: "Bus_replayMissedEventsLocked env ctx cid lastID b = replay_loop env ctx cid target ?g ?t ?es ?obs [] [] ?s"
    using assms(1-3,5)
    by (auto simp: Bus_replayMissedEventsLocked_def Let_def replay_state_def)
  obtain b1 ns where L: "replay_loop env ctx cid target ?g ?t ?es ?obs [] [] ?s =
      (Return (?obs\<lparr>obs_DeliveryCount := obs_DeliveryCount ?obs + int (length (filter (replays cid ?t ?s) ?es)),
                   obs_Outcome := ''success''\<rparr>, [] @ ns, None), b1)"
    "length ns = length (filter (replays cid ?t ?s) ?es)"
    "map queued_for (queued (b_sendQueue b1)) =
      map queued_for (queued (b_sendQueue ?s)) @ map (replay_of cid target ?g) (filter (replays cid ?t ?s) ?es)"
    "same_scene ?s b1" "b_replayStore b1 = b_replayStore ?s"
    using replay_loop_queues [OF can assms(5) act valid, of env cid ?g ?t ?obs "[]"] by blast
  have same: "replays cid ?t ?s = replays cid ?t b" by (simp add: replays_def replay_state_fields fun_eq_iff)
  have q: "queued (b_sendQueue ?s) = filter (\<lambda>e. \<not> (ce_client e = target \<and> ev_ID (ce_Event e) \<noteq> [])) (queued (b_sendQueue b))"
    using queue_ok_filter(2) [of "b_sendQueue b" "pending_match target True"] assms(6)
    by (simp add: can_queue_def replay_state_fields pending_match_def)
  have zero: "obs_DeliveryCount ?obs = 0" by (simp add: replay_observation_def zero_observation_def)
  let ?missed = "filter (replays cid ?t b) ?es"
  let ?obs' = "?obs\<lparr>obs_DeliveryCount := int (length ?missed), obs_Outcome := ''success''\<rparr>"
  have "Bus_replayMissedEventsLocked env ctx cid lastID b = (Return (?obs', ns, None), b1)"
    using L(1) unfolding eq same zero by simp
  moreover have "b_clients b1 = b_clients b" "b_registry b1 = b_registry b" "b_replayStore b1 = b_replayStore b"
    using L(4,5) by (simp_all add: same_scene_def replay_state_fields)
  moreover have "set (rq_items (b_retryQueue b1)) =
      {e \<in> set (rq_items (b_retryQueue b)). \<not> (ce_client e = target \<and> ev_ID (ce_Event e) \<noteq> [])}"
    using L(4) set_retryQueue_remove [OF assms(8)] by (auto simp: same_scene_def replay_state_fields pending_match_def)
  moreover have "length ns = length ?missed" using L(2) unfolding same .
  moreover note L(3) [unfolded same q]
  ultimately show ?thesis
    unfolding es by (intro exI [of _ b1] exI [of _ ns] exI [of _ ?obs'] exI [of _ ?missed]) (simp add: es)
qed

text \<open>A bus with one retained event, an older retry of the same client waiting in the retry queue.\<close>

definition demo_retained :: replay_event where
  "demo_retained = \<lparr>re_ClientID = ''a'', re_Event = demo_id_event, re_ConvertedValue = ''hi'',
     re_HasConverted = True, re_StoredAt = 0\<rparr>"

definition demo_replay_bus :: bus where
  "demo_replay_bus = demo_store_bus\<lparr>b_replayStore := \<lparr>rs_events = [''a'' \<mapsto> [demo_retained]]\<rparr>,
     b_retryQueue := (b_retryQueue demo_store_bus)\<lparr>rq_items := [(demo_ce 1)\<lparr>ce_Event := demo_id_event\<rparr>]\<rparr>\<rparr>"

lemma demo_replay_bus_facts:
  "b_clients demo_replay_bus ''a'' = Some 0" "client_isActive 0 demo_replay_bus"
  "cfg_replayStore (b_config demo_replay_bus) \<noteq> None" "slice_of (b_replayStore demo_replay_bus) ''a'' = [demo_retained]"
  "queued (b_sendQueue demo_replay_bus) = []" "cfg_replayRetention (b_config demo_replay_bus) = 5 * time_Minute"
  "subs (b_registry demo_replay_bus) = [''x'' \<mapsto> {''a''}]"
  "rq_items (b_retryQueue demo_replay_bus) = [(demo_ce 1)\<lparr>ce_Event := demo_id_event\<rparr>]"
  by (simp_all add: demo_replay_bus_def demo_store_bus_def demo_bus1_eq demo_bus0_def initial_bus_def client_isActive_def demo_client_def
      zero_client_def slice_of_def default_registry_def defaultConfig_def newEventQueue_def queued_def)

lemma demo_replay_bus_ok:
  "store_ok (b_replayStore demo_replay_bus)" "retry_queue_ok (b_retryQueue demo_replay_bus)"
  "n \<le> 10000 \<Longrightarrow> can_queue n demo_replay_bus"
proof -
  show "store_ok (b_replayStore demo_replay_bus)"
    by (simp add: demo_replay_bus_def store_ok_def demo_retained_def demo_id_event_facts)
  show "retry_queue_ok (b_retryQueue demo_replay_bus)"
    by (simp add: demo_replay_bus_def demo_store_bus_def demo_bus1_eq demo_bus0_def initial_bus_def newRetryQueue_def retry_queue_ok_def
        heap_from_def defaultConfig_def)
  show "n \<le> 10000 \<Longrightarrow> can_queue n demo_replay_bus"
    using demo_store_bus_room [of n] by (simp add: can_queue_def demo_replay_bus_def)
qed

theorem replay_delivers_missed_witness:
  "\<exists>b1 ns obs. Bus_replayMissedEventsLocked demo_env Background ''a'' [] demo_replay_bus = (Return (obs, ns, None), b1) \<and>
     obs_Outcome obs = ''success'' \<and> obs_DeliveryCount obs = 1 \<and> length (queued (b_sendQueue b1)) = 1 \<and>
     rq_items (b_retryQueue b1) = []"
proof -
  note F = demo_replay_bus_facts and Ok = demo_replay_bus_ok
  have since: "length (ReplayStore_EventsSince ''a'' [] (b_replayStore demo_replay_bus)) \<le> 10000"
    using EventsSince_history [OF Ok(1)] F(4) by simp
  have one: "filter (replays ''a'' (env_now demo_env (log demo_replay_bus) - cfg_replayRetention (b_config demo_replay_bus)) demo_replay_bus)
      [demo_retained] = [demo_retained]"
    using demo_id_event_facts(1,5) F(6,7) by (simp add: replays_def demo_retained_def demo_env_def Registry_IsSubscribed_def)
  have v: "validateEvent (re_Event demo_retained) = None" using demo_id_event_facts(3) by (simp add: demo_retained_def)
  have old: "{e \<in> set (rq_items (b_retryQueue demo_replay_bus)). \<not> (ce_client e = 0 \<and> ev_ID (ce_Event e) \<noteq> [])} = {}"
    by (simp add: F(8)) (simp add: demo_ce_def demo_id_event_facts)
  from replay_delivers_missed [OF F(1-3) Ok(1) _ Ok(3) [OF since] _ Ok(2), of Background demo_env] obtain b1 ns obs where
    R: "Bus_replayMissedEventsLocked demo_env Background ''a'' [] demo_replay_bus = (Return (obs, ns, None), b1)"
    "obs_Outcome obs = ''success''" "obs_DeliveryCount obs = 1" "length (map queued_for (queued (b_sendQueue b1))) = 1"
    "set (rq_items (b_retryQueue b1)) = {}"
    using one v F(4,5) unfolding old by (auto simp: Background_def)
  then show ?thesis by auto
qed

end
