(* ===== verification/Lifecycle.thy ===== *)
theory Lifecycle
  imports Scenario
begin

text \<open>
  The lifecycle of clients: what registering, disconnecting, unregistering, expiring and
  exhausting the send attempts do to the client table, the subscriptions, the pending events,
  the replay history and the connections.
\<close>

section \<open>Pending events of a client\<close>

definition no_pending :: "cref \<Rightarrow> bus \<Rightarrow> bool" where
  "no_pending c b \<longleftrightarrow> (\<forall>e \<in> set (queued (b_sendQueue b)) \<union> set (rq_items (b_retryQueue b)). ce_client e \<noteq> c)"

lemma no_pending_removePending:
  assumes "queue_ok (b_sendQueue b)" "retry_queue_ok (b_retryQueue b)"
  shows "no_pending c (Bus_removePending c False b)"
  using assms by (auto simp: no_pending_def queue_ok_filter set_retryQueue_remove pending_match_def)

lemma no_pending_frame: "bus_frame b b' \<Longrightarrow> no_pending c b' = no_pending c b"
  by (simp add: no_pending_def bus_frame_def)

lemma log_only_no_pending: "log_only b b' \<Longrightarrow> no_pending c b' = no_pending c b"
  using no_pending_frame log_only_fields(1) by blast

section \<open>Registering\<close>

text \<open>The fields of a registered state, with the previous generation's treatment.\<close>

definition replaced_state :: "env \<Rightarrow> string \<Rightarrow> connection \<Rightarrow> registration_config \<Rightarrow> bus \<Rightarrow> bus" where
  "replaced_state env clientID conn reg b =
     (let b1 = snd (alloc_client (zero_client\<lparr>connection := conn, lastTransfer := env_now env (log b),
                                             completeAfterMessage := reg_complete reg\<rparr>) b)
      in case b_clients b clientID of None \<Rightarrow> b1
         | Some existing \<Rightarrow> Bus_removePending existing False (snd (client_replaceWith env existing conn b1)))"

lemma registered_replaced:
  "registered_state env clientID conn reg b =
     (let b2 = replaced_state env clientID conn reg b
      in b2\<lparr>b_registry := register_subscriptions Registry_Subscribe Registry_UnsubscribeAll
               (Registry_AllEvents (env_range env (log b2))) Registry_Unsubscribe clientID (reg_replace reg) (reg_events reg) (b_registry b2),
            b_clients := (b_clients b2)(clientID \<mapsto> nextRef b)\<rparr>)"
  by (simp add: registered_state_def register_prepare_def alloc_client_def replaced_state_def case_prod_unfold Let_def
      split: option.split)

lemma alloc_fields [simp]:
  "b_clients (snd (alloc_client cl b)) = b_clients b" "b_registry (snd (alloc_client cl b)) = b_registry b"
  "b_sendQueue (snd (alloc_client cl b)) = b_sendQueue b" "b_retryQueue (snd (alloc_client cl b)) = b_retryQueue b"
  "log (snd (alloc_client cl b)) = log b" "heap (snd (alloc_client cl b)) = (heap b)(nextRef b := cl)"
  "b_replayStore (snd (alloc_client cl b)) = b_replayStore b" "b_config (snd (alloc_client cl b)) = b_config b"
  by (simp_all add: alloc_client_def)

lemma replaceWith_fields [simp]:
  fixes b :: bus
  shows "b_clients (snd (client_replaceWith env c conn b)) = b_clients b" "b_registry (snd (client_replaceWith env c conn b)) = b_registry b"
  "b_sendQueue (snd (client_replaceWith env c conn b)) = b_sendQueue b" "b_retryQueue (snd (client_replaceWith env c conn b)) = b_retryQueue b"
  using replaceWith_frame [of b env c conn] by (simp_all add: bus_frame_def)

lemma removePending_life: "turns.more (heap (Bus_removePending c r b) x) = turns.more (heap b x)"
  using fun_cong [OF removePending_fields(10) [of c r b], of x] by (simp only: life_at_def)

lemma retire_fields [simp]:
  fixes b :: bus
  shows "b_clients (snd (client_retire env c cl b)) = b_clients b" "b_registry (snd (client_retire env c cl b)) = b_registry b"
  "b_sendQueue (snd (client_retire env c cl b)) = b_sendQueue b" "b_retryQueue (snd (client_retire env c cl b)) = b_retryQueue b"
  "b_replayStore (snd (client_retire env c cl b)) = b_replayStore b" "b_config (snd (client_retire env c cl b)) = b_config b"
  by (simp_all add: client_retire_eq)

lemma replaced_fields:
  assumes "bus_inv h b"
  shows "b_clients (replaced_state env cid conn reg b) = b_clients b" "b_registry (replaced_state env cid conn reg b) = b_registry b"
    "b_clients b cid = Some old \<Longrightarrow> no_pending old (replaced_state env cid conn reg b)"
    "c < nextRef b \<Longrightarrow> b_clients b cid \<noteq> Some c \<Longrightarrow> turns.more (heap (replaced_state env cid conn reg b) c) = turns.more (heap b c)"
    "b_clients b cid = Some old \<Longrightarrow> inactive (heap (replaced_state env cid conn reg b) old) \<and>
       connectionClosed (heap (replaced_state env cid conn reg b) old) =
         (connectionClosed (heap b old) \<or> \<not> sameConnection (connection (heap b old)) conn)"
    "turns.more (heap (replaced_state env cid conn reg b) (nextRef b)) =
       turns.more (zero_client\<lparr>connection := conn, lastTransfer := env_now env (log b), completeAfterMessage := reg_complete reg\<rparr>)"
proof -
  have old: "x < nextRef b" if "b_clients b cid = Some x" for x using bus_inv_client [OF assms that] .
  have q: "queue_ok (b_sendQueue b)" "retry_queue_ok (b_retryQueue b)" using assms by (simp_all add: bus_inv_def parts_ok_def)
  show "b_clients (replaced_state env cid conn reg b) = b_clients b" "b_registry (replaced_state env cid conn reg b) = b_registry b"
    by (simp_all add: replaced_state_def Let_def split: option.split)
  show "b_clients b cid = Some old \<Longrightarrow> no_pending old (replaced_state env cid conn reg b)"
    using q by (simp add: replaced_state_def no_pending_removePending)
  show "c < nextRef b \<Longrightarrow> b_clients b cid \<noteq> Some c \<Longrightarrow> turns.more (heap (replaced_state env cid conn reg b) c) = turns.more (heap b c)"
    by (auto simp: replaced_state_def Let_def removePending_life client_replaceWith_eq split: option.split)
  show "b_clients b cid = Some old \<Longrightarrow> inactive (heap (replaced_state env cid conn reg b) old) \<and>
       connectionClosed (heap (replaced_state env cid conn reg b) old) =
         (connectionClosed (heap b old) \<or> \<not> sameConnection (connection (heap b old)) conn)"
    using old life_fields(3,5) [OF removePending_life]
    by (auto simp: replaced_state_def Let_def client_replaceWith_eq)
  show "turns.more (heap (replaced_state env cid conn reg b) (nextRef b)) =
       turns.more (zero_client\<lparr>connection := conn, lastTransfer := env_now env (log b), completeAfterMessage := reg_complete reg\<rparr>)"
    using old by (auto simp: replaced_state_def Let_def removePending_life client_replaceWith_eq split: option.split)
qed

lemma registration_installed:
  fixes options :: "registration_option option list"
  defines "reg \<equiv> apply_registration options zero_registration"
  assumes inv: "bus_inv h b" and args: "cid \<noteq> []" "\<not> isNil conn" "orBackground ctx (log b) = None" "\<not> b_closed b"
    and "\<not> reg_replay reg"
    and b': "Bus_RegisterContext env ctx cid conn options b = (r, b')"
  shows "r = Return None" and "log_only (registered_state env cid conn reg b) b'"
    and "b_clients b' = (b_clients b)(cid \<mapsto> nextRef b)" and "heap b' = heap (replaced_state env cid conn reg b)"
    and "connection (heap b' (nextRef b)) = conn" and "\<not> inactive (heap b' (nextRef b))"
    and "completeAfterMessage (heap b' (nextRef b)) = reg_complete reg"
proof -
  let ?b2 = "replaced_state env cid conn reg b" and ?b4 = "registered_state env cid conn reg b"
  note R = replaced_fields [OF inv, where env = env and cid = cid and conn = conn and reg = reg]
  show log: "log_only ?b4 b'" and "r = Return None"
    using b' assms(7) args unfolding reg_def by (auto simp: RegisterContext_eq Let_def)
  then show heap: "heap b' = heap ?b2" and "b_clients b' = (b_clients b)(cid \<mapsto> nextRef b)"
    using log_only_fields [OF log] R(1) by (simp_all add: bus_frame_def registered_replaced Let_def)
  show "connection (heap b' (nextRef b)) = conn" "\<not> inactive (heap b' (nextRef b))"
    "completeAfterMessage (heap b' (nextRef b)) = reg_complete reg"
    using life_fields(1,3,4) [OF R(6)] by (simp_all add: zero_client_def heap)
qed

text \<open>C11. A successful registration without replay installs a fresh, active generation with the given connection
  under the ID and leaves every other ID alone; the previous generation of the ID becomes inactive, its
  connection is closed unless it is the same connection, and none of its events stays pending; the
  subscriptions afterwards are the old ones and the listed ones, or only the listed ones
  when they replace.\<close>

theorem register_installs:
  fixes options :: "registration_option option list"
  defines "reg \<equiv> apply_registration options zero_registration"
  assumes inv: "bus_inv h b" and args: "cid \<noteq> []" "\<not> isNil conn" "orBackground ctx (log b) = None" "\<not> b_closed b"
    and "\<not> reg_replay reg" and range: "\<And>h. enumerates (env_range env h)"
    and b': "Bus_RegisterContext env ctx cid conn options b = (r, b')"
  shows "r = Return None \<and> b_clients b' = (b_clients b)(cid \<mapsto> nextRef b) \<and> nextRef b \<notin> ran (b_clients b) \<and>
    connection (heap b' (nextRef b)) = conn \<and> client_isActive (nextRef b) b' \<and>
    completeAfterMessage (heap b' (nextRef b)) = reg_complete reg \<and>
    (\<forall>old. b_clients b cid = Some old \<longrightarrow> \<not> client_isActive old b' \<and> no_pending old b' \<and>
       (connectionClosed (heap b' old) \<longleftrightarrow> connectionClosed (heap b old) \<or> \<not> sameConnection (connection (heap b old)) conn)) \<and>
    (\<forall>other c. other \<noteq> cid \<longrightarrow> b_clients b other = Some c \<longrightarrow> client_isActive c b' = client_isActive c b) \<and>
    (\<forall>c e. Registry_IsSubscribed c e (b_registry b') \<longleftrightarrow>
       (c = cid \<and> e \<noteq> [] \<and> e \<in> set (reg_events reg)) \<or>
       (Registry_IsSubscribed c e (b_registry b) \<and> (c = cid \<and> reg_replace reg \<longrightarrow> e \<in> set (reg_events reg))))"
proof -
  let ?b2 = "replaced_state env cid conn reg b" and ?b4 = "registered_state env cid conn reg b"
  note R = replaced_fields [OF inv, where env = env and cid = cid and conn = conn and reg = reg]
  note I = registration_installed [OF inv args assms(7) [unfolded reg_def] b', folded reg_def]
  have frame: "b_registry b' = b_registry ?b4" "no_pending c b' = no_pending c ?b2" for c
    using log_only_fields [OF I(2)] log_only_no_pending [OF I(2)] by (simp_all add: bus_frame_def registered_replaced Let_def no_pending_def)
  have fresh: "nextRef b \<notin> ran (b_clients b)" using bus_inv_client [OF inv] by (auto simp: ran_def)
  have other: "inactive (heap ?b2 c) = inactive (heap b c)" if "x \<noteq> cid" "b_clients b x = Some c" for x c
  proof -
    have "b_clients b cid \<noteq> Some c" using bus_invD(3) [OF inv] that by (auto simp: refs_ok_def)
    then show ?thesis using life_fields(3) [OF R(4)] bus_inv_client [OF inv that(2)] by blast
  qed
  have subs: "Registry_IsSubscribed c e (b_registry ?b4) \<longleftrightarrow>
       (c = cid \<and> e \<noteq> [] \<and> e \<in> set (reg_events reg)) \<or>
       (Registry_IsSubscribed c e (b_registry b) \<and> (c = cid \<and> reg_replace reg \<longrightarrow> e \<in> set (reg_events reg)))" for c e
    using subscription_registry.register_subscriptions_iff [OF memory_subscription_registry [OF range]] R(2) bus_invD(2) [OF inv]
    by (simp add: registered_replaced Let_def parts_ok_def)
  show ?thesis
    using I(1,3,5,6,7) fresh other subs R(3,5) by (simp add: frame client_isActive_def I(4))
qed

theorem register_installs_witness:
  "b_clients (snd (Bus_RegisterContext demo_env None ''a'' (demo_conn 2) [] demo_bus3)) =
     (b_clients demo_bus3)(''a'' \<mapsto> nextRef demo_bus3)"
proof -
  obtain r b' where b': "Bus_RegisterContext demo_env None ''a'' (demo_conn 2) [] demo_bus3 = (r, b')" by fastforce
  have inv: "bus_inv (hands_of [WIdle, WIdle] SIdle) demo_bus3"
    using reachable_inv [OF demo_reach3] by (simp add: system_inv_def demo_system_def)
  have "\<not> b_closed demo_bus3" by (simp add: demo_bus3_eq demo_bus1_eq demo_bus0_def initial_bus_def)
  from register_installs [OF inv _ _ _ this _ demo_env_range b'] show ?thesis
    using b' by (simp add: demo_conn_def orBackground_def Background_def zero_registration_def)
qed

text \<open>C12. What a registration refuses. When nothing runs in between, a registration without replay is refused for exactly
  four reasons, reported as the error, and then changes nothing: an empty ID, a nil connection (also a nil
  pointer in an interface), a context that has ended, or a closed bus, checked in that order; in every other case it succeeds, and
  it never waits for room in a queue. A context that ends or a \<^verbatim>\<open>Close\<close> that begins while the call waits for the
  client's lock is reported, and changes nothing. A \<^verbatim>\<open>Close\<close> that begins after the previous generation was replaced is
  reported as \<^verbatim>\<open>ErrClosed\<close>: then the client table, the subscriptions, the queues and the replay history are left as the
  replacement left them, and the new generation is inactive with its connection closed.\<close>

theorem register_refused:
  assumes inv: "bus_inv h b" and noreplay: "\<not> reg_replay (apply_registration options zero_registration)"
  shows "fst (Bus_RegisterContext env ctx cid conn options b) =
      Return (if cid = [] then Some ErrInvalidClientID else if isNil conn then Some ErrNilConnection
              else case orBackground ctx (log b) of Some x \<Rightarrow> Some x | None \<Rightarrow> if b_closed b then Some ErrClosed else None) \<and>
    (fst (Bus_RegisterContext env ctx cid conn options b) \<noteq> Return None \<longrightarrow> snd (Bus_RegisterContext env ctx cid conn options b) = b) \<and>
    (\<forall>b1 x. orBackground ctx (log b1) = Some x \<longrightarrow> register_locked env (orBackground ctx) cid conn reg b1 = (Return (Some x), b1)) \<and>
    (\<forall>b1. orBackground ctx (log b1) = None \<and> b_closed b1 \<longrightarrow>
       register_locked env (orBackground ctx) cid conn reg b1 = (Return (Some ErrClosed), b1)) \<and>
    (\<forall>b2 b3 r. b_closed b2 \<and> register_commit env (orBackground ctx) cid target reg b2 = (r, b3) \<longrightarrow> r = Return (Some ErrClosed) \<and>
       b_clients b3 = b_clients b2 \<and> b_registry b3 = b_registry b2 \<and> b_sendQueue b3 = b_sendQueue b2 \<and>
       b_retryQueue b3 = b_retryQueue b2 \<and> b_replayStore b3 = b_replayStore b2 \<and>
       \<not> client_isActive target b3 \<and> connectionClosed (heap b3 target))"
proof (intro conjI allI impI)
  show "fst (Bus_RegisterContext env ctx cid conn options b) =
      Return (if cid = [] then Some ErrInvalidClientID else if isNil conn then Some ErrNilConnection
              else case orBackground ctx (log b) of Some x \<Rightarrow> Some x | None \<Rightarrow> if b_closed b then Some ErrClosed else None)"
    using registration_installed(1) [OF inv _ _ _ _ noreplay surjective_pairing]
    by (auto simp: Bus_RegisterContext_def register_arguments_def register_locked_def Let_def split: option.split)
  show "snd (Bus_RegisterContext env ctx cid conn options b) = b" if "fst (Bus_RegisterContext env ctx cid conn options b) \<noteq> Return None"
    using RegisterContext_rejects registration_installed(1) [OF inv _ _ _ _ noreplay surjective_pairing] that by blast
qed (auto simp: register_locked_def register_commit_def client_retire_eq client_isActive_def split: if_splits)

theorem register_refused_witness:
  "fst (Bus_RegisterContext demo_env None [] (demo_conn 2) [] demo_bus3) = Return (Some ErrInvalidClientID) \<and>
   fst (Bus_RegisterContext demo_env None ''b'' (demo_conn 2) [] demo_bus3) = Return None \<and>
   fst (register_commit demo_env (orBackground None) ''a'' (nextRef demo_bus3) zero_registration
          (close_flag (snd (register_prepare demo_env ''a'' (demo_conn 2) zero_registration demo_bus3)))) = Return (Some ErrClosed)"
proof -
  have inv: "bus_inv (hands_of [WIdle, WIdle] SIdle) demo_bus3"
    using reachable_inv [OF demo_reach3] by (simp add: system_inv_def demo_system_def)
  let ?b2 = "close_flag (snd (register_prepare demo_env ''a'' (demo_conn 2) zero_registration demo_bus3))"
  obtain r b3 where "register_commit demo_env (orBackground None) ''a'' (nextRef demo_bus3) zero_registration ?b2 = (r, b3)" by fastforce
  moreover have "b_closed ?b2" by (simp add: close_flag_def)
  moreover have "\<not> b_closed demo_bus3" by (simp add: demo_bus3_eq demo_bus1_eq demo_bus0_def initial_bus_def)
  ultimately show ?thesis
    using register_refused [OF inv, of "[]" demo_env None "[]" "demo_conn 2" zero_registration 0]
      register_refused [OF inv, of "[]" demo_env None "''b''" "demo_conn 2" zero_registration 0]
      register_refused [OF inv, of "[]" demo_env None "''a''" "demo_conn 2" zero_registration "nextRef demo_bus3"]
    by (simp add: zero_registration_def demo_conn_def orBackground_def Background_def)
qed

section \<open>Disconnecting and unregistering\<close>

lemma Disconnect_matching:
  assumes inv: "bus_inv h b" and b': "Bus_Disconnect env cid conn b = (acted, b')"
  shows "acted \<longleftrightarrow> (\<exists>c. \<not> isNil conn \<and> b_clients b cid = Some c \<and> sameConnection (connection (heap b c)) conn)"
    and "\<not> acted \<Longrightarrow> b' = b"
    and "acted \<Longrightarrow> b_clients b cid = Some c \<Longrightarrow> \<not> client_isActive c b' \<and> connectionClosed (heap b' c) \<and> no_pending c b'"
    and "b_clients b' = b_clients b" "b_registry b' = b_registry b" "b_replayStore b' = b_replayStore b"
proof -
  have q: "queue_ok (b_sendQueue b)" "retry_queue_ok (b_retryQueue b)" using inv by (simp_all add: bus_inv_def parts_ok_def)
  have life: "inactive (heap (Bus_removePending c r w) x) = inactive (heap w x)"
    "connectionClosed (heap (Bus_removePending c r w) x) = connectionClosed (heap w x)" for c r w x
    using life_fields(3,5) [OF removePending_life] by blast+
  have pend: "no_pending c (Bus_removePending c False (snd (client_retire env c True b)))" for c
    using q by (intro no_pending_removePending) simp_all
  have closed: "inactive (heap (snd (client_retire env c True b)) c)" "connectionClosed (heap (snd (client_retire env c True b)) c)" for c
    by (simp_all add: client_retire_eq)
  show "acted \<longleftrightarrow> (\<exists>c. \<not> isNil conn \<and> b_clients b cid = Some c \<and> sameConnection (connection (heap b c)) conn)"
    "\<not> acted \<Longrightarrow> b' = b" "b_clients b' = b_clients b" "b_registry b' = b_registry b" "b_replayStore b' = b_replayStore b"
    "acted \<Longrightarrow> b_clients b cid = Some c \<Longrightarrow> \<not> client_isActive c b' \<and> connectionClosed (heap b' c) \<and> no_pending c b'"
    using b' pend by (auto simp: Bus_Disconnect_def client_isActive_def life closed split: if_splits option.splits)
qed

text \<open>C13. \<^verbatim>\<open>Disconnect\<close> acts exactly when the given non-nil connection is the one
  registered under the ID: then the generation is inactive, its connection closed and none of its
  events pending, while the client stays registered with its subscriptions and replay history. A stale
  connection changes nothing.\<close>

theorem disconnect_matching_only:
  assumes inv: "bus_inv h b" and b': "Bus_Disconnect env cid conn b = (done1, b')"
  shows "(done1 \<longleftrightarrow> (\<exists>c. \<not> isNil conn \<and> b_clients b cid = Some c \<and> sameConnection (connection (heap b c)) conn)) \<and>
    (\<not> done1 \<longrightarrow> b' = b) \<and>
    (done1 \<longrightarrow> (\<exists>c. b_clients b cid = Some c \<and> \<not> client_isActive c b' \<and> connectionClosed (heap b' c) \<and> no_pending c b') \<and>
       b_clients b' = b_clients b \<and> b_registry b' = b_registry b \<and> b_replayStore b' = b_replayStore b)"
  using Disconnect_matching [OF inv b'] by blast

theorem disconnect_matching_only_witness: "Bus_Disconnect demo_env ''a'' (demo_conn 2) demo_bus3 = (False, demo_bus3)"
proof -
  obtain d b' where b': "Bus_Disconnect demo_env ''a'' (demo_conn 2) demo_bus3 = (d, b')" by fastforce
  have inv: "bus_inv (hands_of [WIdle, WIdle] SIdle) demo_bus3"
    using reachable_inv [OF demo_reach3] by (simp add: system_inv_def demo_system_def)
  have "connection (heap demo_bus3 0) = demo_conn 1" "b_clients demo_bus3 ''a'' = Some 0"
    by (simp_all add: demo_bus3_eq demo_bus1_eq demo_client_def)
  then show ?thesis using disconnect_matching_only [OF inv b'] b' by (auto simp: demo_conn_def)
qed

text \<open>C14. \<^verbatim>\<open>Unregister\<close> returns whether the ID was registered; if so, the ID is gone, it has no
  subscription, no pending event and (with a replay store) no history, its connection is
  closed, and no other ID loses its registration, its subscriptions or its history.\<close>

theorem unregister_removes_all:
  assumes inv: "bus_inv h b" and b': "Bus_Unregister env cid b = (r, b')"
  shows "(r \<longleftrightarrow> Bus_IsClientRegistered cid b) \<and> b_clients b' = (b_clients b)(cid := None) \<and>
    (\<forall>c. b_clients b cid = Some c \<longrightarrow> \<not> client_isActive c b' \<and> connectionClosed (heap b' c) \<and> no_pending c b' \<and>
       (\<forall>e. \<not> Registry_IsSubscribed cid e (b_registry b')) \<and>
       (cfg_replayStore (b_config b) \<noteq> None \<longrightarrow> slice_of (b_replayStore b') cid = [])) \<and>
    (\<forall>other e. other \<noteq> cid \<longrightarrow> Registry_IsSubscribed other e (b_registry b') = Registry_IsSubscribed other e (b_registry b)) \<and>
    (\<forall>other. other \<noteq> cid \<longrightarrow> slice_of (b_replayStore b') other = slice_of (b_replayStore b) other)"
proof (cases "b_clients b cid")
  case None
  then have "r = False" "log_only b b'"
    using unregister_noop [OF None, of env None None True] b' by (simp_all add: Bus_Unregister_def)
  then show ?thesis using None log_only_fields(1) [of b b'] by (auto simp: Bus_IsClientRegistered_def bus_frame_def)
next
  case (Some c)
  let ?u = "unregistered_state cid c b"
  obtain x b5 where ret: "client_retire env c True ?u = (x, b5)" by fastforce
  then have b5: "b5 = snd (client_retire env c True ?u)" by simp
  have r: "r" and log: "log_only b5 b'"
    using b' unregister_removes [OF Some, of None None env True] ret by (auto simp: Bus_Unregister_def)
  have q: "queue_ok (b_sendQueue b)" "retry_queue_ok (b_retryQueue b)" using inv by (simp_all add: bus_inv_def parts_ok_def)
  have u: "b_clients ?u = (b_clients b)(cid := None)" "b_registry ?u = Registry_UnsubscribeAll cid (b_registry b)"
    "b_replayStore ?u = (if cfg_replayStore (b_config b) \<noteq> None then ReplayStore_ClearClient cid (b_replayStore b) else b_replayStore b)"
    by (simp_all add: unregistered_state_def Let_def)
  have "no_pending c ?u"
    using no_pending_removePending [of "b\<lparr>b_clients := (b_clients b)(cid := None), b_registry := Registry_UnsubscribeAll cid (b_registry b)\<rparr>"] q
    by (simp add: unregistered_state_def Let_def no_pending_def)
  then have pend: "no_pending c b'" using log_only_no_pending [OF log] by (simp add: b5 no_pending_def)
  have fields: "b_clients b' = b_clients ?u" "b_registry b' = b_registry ?u" "b_replayStore b' = b_replayStore ?u" "heap b' = heap b5"
    using log_only_fields [OF log] by (simp_all add: bus_frame_def b5)
  have closed: "inactive (heap b' c)" "connectionClosed (heap b' c)" by (simp_all add: fields(4) b5 client_retire_eq)
  show ?thesis
    using r Some pend closed memory_store.history_clear bus_invD(2) [OF inv]
    by (simp add: fields(1-3) u Bus_IsClientRegistered_def client_isActive_def IsSubscribed_UnsubscribeAll parts_ok_def)
qed

theorem unregister_removes_all_witness:
  "fst (Bus_Unregister demo_env ''a'' demo_bus3) \<and> b_clients (snd (Bus_Unregister demo_env ''a'' demo_bus3)) ''a'' = None"
proof -
  obtain r b' where b': "Bus_Unregister demo_env ''a'' demo_bus3 = (r, b')" by fastforce
  have inv: "bus_inv (hands_of [WIdle, WIdle] SIdle) demo_bus3"
    using reachable_inv [OF demo_reach3] by (simp add: system_inv_def demo_system_def)
  show ?thesis using unregister_removes_all [OF inv b'] b'
    by (simp add: Bus_IsClientRegistered_def demo_bus3_eq demo_bus1_eq)
qed

section \<open>Removal of exhausted and of expired clients\<close>

text \<open>C15. The removal goroutine that an exhausted event starts never removes a replacement: when
  another generation, or none, is registered under the ID, the round changes nothing.\<close>

theorem removal_spares_replacement:
  assumes "b_clients b (fst p) \<noteq> Some (snd p)"
  shows "removal_round env p b = b\<lparr>b_removals := remove1 p (b_removals b)\<rparr>"
  using assms by (auto simp: removal_round_def Bus_unregister_def Let_def)

theorem removal_spares_replacement_witness:
  "removal_round demo_env (''a'', 5) demo_bus3 = demo_bus3\<lparr>b_removals := remove1 (''a'', 5) (b_removals demo_bus3)\<rparr>"
  by (rule removal_spares_replacement) (simp add: demo_bus3_eq demo_bus1_eq)

lemma unregister_stale:
  "b_clients (snd (Bus_unregister env cid None (Some t) False b)) =
     (case b_clients b cid of None \<Rightarrow> b_clients b
      | Some c \<Rightarrow> if client_lastSeen c b < t then (b_clients b)(cid := None) else b_clients b)"
  "client_lastSeen x (snd (Bus_unregister env cid None (Some t) False b)) = client_lastSeen x b"
proof -
  let ?r = "Bus_unregister env cid None (Some t) False b"
  have removed: "b_clients (snd ?r) = (b_clients b)(cid := None) \<and> client_lastSeen x (snd ?r) = client_lastSeen x b"
    if "b_clients b cid = Some c" "client_lastSeen c b < t" for c
  proof -
    obtain y b5 where ret: "client_retire env c True (unregistered_state cid c b) = (y, b5)" by fastforce
    then have b5: "b5 = snd (client_retire env c True (unregistered_state cid c b))" by simp
    have log: "log_only b5 (snd ?r)"
      using unregister_removes [OF that(1), of None "Some t" env False] that(2) ret by auto
    have u: "lastTransfer (heap (unregistered_state cid c b) x) = lastTransfer (heap b x)"
      "b_clients (unregistered_state cid c b) = (b_clients b)(cid := None)"
      using life_fields(2) [OF removePending_life] by (simp_all add: unregistered_state_def Let_def)
    then have "lastTransfer (heap b5 x) = lastTransfer (heap b x)" by (auto simp: b5 client_retire_eq)
    then show ?thesis using log_only_fields [OF log] u by (simp add: b5 bus_frame_def client_lastSeen_def)
  qed
  show "b_clients (snd ?r) = (case b_clients b cid of None \<Rightarrow> b_clients b
      | Some c \<Rightarrow> if client_lastSeen c b < t then (b_clients b)(cid := None) else b_clients b)"
    "client_lastSeen x (snd ?r) = client_lastSeen x b"
    using removed unregister_keeps [of b cid _ None "Some t" env False]
    by (cases "b_clients b cid"; force simp: Bus_unregister_def not_less)+
qed

lemma fold_unregister_stale:
  fixes env :: env and t :: instant
  defines "f \<equiv> \<lambda>cid (removed, b). case Bus_unregister env cid None (Some t) False b of
      (True, b') \<Rightarrow> (removed @ [cid], b') | (False, b') \<Rightarrow> (removed, b')"
  shows "b_clients (snd (fold f ids (rs, b))) = (\<lambda>cid. case b_clients b cid of None \<Rightarrow> None
      | Some c \<Rightarrow> if cid \<in> set ids \<and> client_lastSeen c b < t then None else Some c)"
proof (induction ids arbitrary: rs b)
  case Nil
  then show ?case by (simp add: fun_eq_iff split: option.split)
next
  case (Cons i ids)
  obtain rs1 b1 where f1: "f i (rs, b) = (rs1, b1)" by fastforce
  then have b1: "b1 = snd (Bus_unregister env i None (Some t) False b)"
    by (auto simp: f_def case_prod_unfold split: bool.splits)
  show ?case
    using Cons.IH [of rs1 b1] unregister_stale [where env = env and cid = i and t = t and b = b]
    by (auto simp: f1 b1 fun_eq_iff split: option.splits if_splits)
qed

text \<open>C16. An expiration tick unregisters exactly the clients whose last transfer is older than the
  expiration, and no other.\<close>

theorem expiration_exact:
  assumes inv: "bus_inv h b" and range: "\<And>h. enumerates (env_range env h)"
  shows "b_clients (expiration_round env now b) = (\<lambda>cid. case b_clients b cid of None \<Rightarrow> None
    | Some c \<Rightarrow> if client_lastSeen c b < now - cfg_expiration (b_config b) then None else Some c)"
proof -
  let ?t = "now - cfg_expiration (b_config b)"
  let ?ids = "filter (\<lambda>cid. case b_clients b cid of None \<Rightarrow> False | Some c \<Rightarrow> client_lastSeen c b < ?t)
      (env_range env (log b) (dom (b_clients b)))"
  let ?f = "\<lambda>cid (removed, b). case Bus_unregister env cid None (Some ?t) False b of
      (True, b') \<Rightarrow> (removed @ [cid], b') | (False, b') \<Rightarrow> (removed, b')"
  have "b_clients (expiration_round env now b) = b_clients (snd (fold ?f ?ids ([], b)))"
    using log_only_fields(1) [OF log_only_notifyUnregistered]
    by (simp add: expiration_round_def Let_def case_prod_unfold bus_frame_def)
  moreover have "set (env_range env (log b) (dom (b_clients b))) = dom (b_clients b)"
    using range bus_invD(2) [OF inv] by (simp add: parts_ok_def)
  ultimately show ?thesis by (auto simp: fold_unregister_stale fun_eq_iff split: option.splits)
qed

theorem expiration_exact_witness:
  "b_clients (expiration_round demo_env (48 * time_Hour) demo_bus3) ''a'' = None \<and>
   b_clients (expiration_round demo_env 5 demo_bus3) ''a'' = Some 0"
proof -
  have inv: "bus_inv (hands_of [WIdle, WIdle] SIdle) demo_bus3"
    using reachable_inv [OF demo_reach3] by (simp add: system_inv_def demo_system_def)
  show ?thesis
    by (simp add: expiration_exact [OF inv demo_env_range])
      (simp add: demo_bus3_eq demo_bus1_eq demo_bus0_def initial_bus_def defaultConfig_def client_lastSeen_def demo_client_def zero_client_def)
qed

section \<open>Attempts\<close>

definition sends_to :: "cref \<Rightarrow> history \<Rightarrow> nat" where
  "sends_to c h = length (filter (sends_of c) h)"

lemma sends_to_log_only:
  assumes "log_only b b'"
  shows "sends_to c (log b') = sends_to c (log b)"
proof -
  obtain xs where xs: "\<forall>x \<in> set xs. ref_of x = None" "b' = b\<lparr>log := log b @ xs\<rparr>" using assms by (auto simp: log_only_def)
  have "\<not> sends_of c x" if "x \<in> set xs" for x using xs(1) that by (cases x) auto
  then show ?thesis by (simp add: xs(2) sends_to_def)
qed

lemma send_counts:
  assumes "\<not> inactive (heap b (ce_client e))"
  shows "sends_to (ce_client e) (log (snd (Bus_send env e b))) = Suc (sends_to (ce_client e) (log b))"
  by (simp add: Bus_send_eq [OF assms] sends_to_def close_effects_def)

text \<open>C17. Attempts are counted and bounded: one call of \<^verbatim>\<open>attempt\<close> sends at most once and
  counts exactly the sends it makes; it sends nothing for a stale event, an inactive client or
  when the attempts are used up; it asks for a retry exactly after a send that the connection answered with an error and that
  leaves attempts and an active, current client.\<close>

theorem attempt_bounded:
  assumes att: "Bus_attempt env e b = ((retry, e1), b1)" and "0 \<le> ce_attempts e" "ce_attempts e < max_int32"
  shows "sends_to (ce_client e) (log b1) = sends_to (ce_client e) (log b) + nat (ce_attempts e1 - ce_attempts e) \<and>
    ce_attempts e1 \<in> {ce_attempts e, ce_attempts e + 1} \<and>
    (ce_attempts e1 = ce_attempts e + 1 \<longleftrightarrow>
       Bus_isCurrentEvent e b \<and> client_isActive (ce_client e) b \<and> ce_attempts e < cfg_attempts (b_config b)) \<and>
    (retry \<longleftrightarrow> ce_attempts e1 = ce_attempts e + 1 \<and>
       env_send env (log b) (connection (heap b (ce_client e))) (ce_Message e) \<noteq> None \<and>
       ce_attempts e1 < cfg_attempts (b_config b1) \<and> Bus_isCurrentEvent e1 b1 \<and> client_isActive (ce_client e) b1)"
proof -
  have exh: "log (exhaust_client x w) = log w" for x w by (simp add: exhaust_client_def)
  show ?thesis
  proof (cases "Bus_isCurrentEvent e b \<and> client_isActive (ce_client e) b \<and> ce_attempts e < cfg_attempts (b_config b)")
    case False
    then show ?thesis using att by (auto simp: Bus_attempt_def ClientEvent_Attempts_def exh split: if_splits)
  next
    case True
    then have act: "\<not> inactive (heap b (ce_client e))" by (simp add: client_isActive_def)
    let ?e = "e\<lparr>ce_attempts := wrap_int32 (ce_attempts e + 1)\<rparr>"
    obtain b2 where s: "Bus_send env e b = ((True, send_result env e b, ?e), b2)"
      using Bus_send_result [OF act, of env] by (metis prod.collapse)
    have wrap: "wrap_int32 (ce_attempts e + 1) = ce_attempts e + 1" using assms(2,3) by (intro wrap_int32_id) auto
    let ?b3 = "Bus_notifySent env ?e (send_result env e b) b2"
    have n: "sends_to (ce_client e) (log ?b3) = Suc (sends_to (ce_client e) (log b))"
      using send_counts [OF act, of env] sends_to_log_only [OF log_only_notifySent] s by simp
    have gone: "\<not> client_isActive (ce_client e) (exhaust_client ?e w)" for w
      by (simp add: exhaust_client_def client_isActive_def)
    have "e1 = ?e" "b1 = (if retry \<or> send_result env e b = None \<or> \<not> Bus_isCurrentEvent ?e ?b3 \<or> \<not> client_isActive (ce_client e) ?b3
           then ?b3 else exhaust_client ?e ?b3)"
      "retry \<longleftrightarrow> send_result env e b \<noteq> None \<and> ce_attempts ?e < cfg_attempts (b_config ?b3) \<and> Bus_isCurrentEvent ?e ?b3 \<and> client_isActive (ce_client e) ?b3"
      using att True by (auto simp: Bus_attempt_def ClientEvent_Attempts_def s Let_def split: if_splits)
    then show ?thesis using True n wrap gone unfolding send_result_def [symmetric] by (auto simp: exh)
  qed
qed

theorem attempt_bounded_witness:
  "sends_to 0 (log (snd (Bus_attempt demo_env (demo_ce 1) demo_bus5))) =
     sends_to 0 (log demo_bus5) + nat (ce_attempts (snd (fst (Bus_attempt demo_env (demo_ce 1) demo_bus5))) - 0) \<and>
   \<not> fst (fst (Bus_attempt demo_env (demo_ce 1) demo_bus5))"
proof -
  obtain r e1 b1 where at: "Bus_attempt demo_env (demo_ce 1) demo_bus5 = ((r, e1), b1)" by (metis surj_pair)
  have "ce_attempts (demo_ce 1) = 0" "ce_client (demo_ce 1) = 0" "env_send demo_env hst con m = None" for hst con m
    by (simp_all add: demo_ce_def demo_env_def)
  then show ?thesis using attempt_bounded [OF at] at by (simp add: max_int32_def)
qed

lemma isCurrent_frame:
  "heap b' = heap b \<Longrightarrow> bus_frame b b' \<Longrightarrow> Bus_isCurrentEvent (e\<lparr>ce_attempts := n\<rparr>) b' = Bus_isCurrentEvent e b"
  by (simp add: Bus_isCurrentEvent_def bus_frame_def)

text \<open>C18. Exhaustion: when the last allowed attempt fails and the client is still current and
  active, the client becomes inactive and exactly one removal is started for that generation; the
  event is not retried.\<close>

theorem exhaustion_retires:
  assumes "Bus_isCurrentEvent e b" "client_isActive (ce_client e) b"
    and "0 \<le> ce_attempts e" "ce_attempts e + 1 = cfg_attempts (b_config b)" "ce_attempts e < max_int32"
    and "env_send env (log b) (connection (heap b (ce_client e))) (ce_Message e) = Some x" "\<not> errors_Is x ErrClosed"
    and "Bus_attempt env e b = ((retry, e1), b1)"
  shows "\<not> retry \<and> \<not> client_isActive (ce_client e) b1 \<and> b_removals b1 = b_removals b @ [(ce_ClientID e, ce_client e)]"
proof -
  have act: "\<not> inactive (heap b (ce_client e))" using assms(2) by (simp add: client_isActive_def)
  let ?e = "e\<lparr>ce_attempts := wrap_int32 (ce_attempts e + 1)\<rparr>"
  have r: "send_result env e b = Some x" "\<not> send_ends env e b" using assms(6,7) by (simp_all add: send_result_def send_ends_def)
  obtain b2 where s: "Bus_send env e b = ((True, Some x, ?e), b2)"
    using Bus_send_result [OF act, of env] r by (metis prod.collapse)
  then have b2: "b2 = b\<lparr>heap := heap b, log := log b @ [SendCall (ce_client e) (connection (heap b (ce_client e))) (ce_Message e) (Some x)]\<rparr>"
    using Bus_send_eq [OF act, of env] act r by (simp add: fun_upd_idem)
  let ?b3 = "Bus_notifySent env ?e (Some x) b2"
  have b3: "heap ?b3 = heap b" "bus_frame b ?b3"
    using log_only_fields [OF log_only_notifySent [of b2 env ?e "Some x"]] b2 by (simp_all add: bus_frame_def)
  then have "Bus_isCurrentEvent ?e ?b3" "\<not> inactive (heap ?b3 (ce_client e))" "cfg_attempts (b_config ?b3) = cfg_attempts (b_config b)"
    using assms(1) act b3 isCurrent_frame [OF b3] by (simp_all add: bus_frame_def)
  moreover have "wrap_int32 (ce_attempts e + 1) = ce_attempts e + 1" using assms(3,5) by (intro wrap_int32_id) auto
  ultimately have "((retry, e1), b1) = ((False, ?e), exhaust_client ?e ?b3)"
    using assms(1,2,4,8) by (auto simp: Bus_attempt_def s ClientEvent_Attempts_def Let_def client_isActive_def)
  then show ?thesis using b3 act by (simp add: exhaust_client_def client_isActive_def bus_frame_def)
qed

definition failing_env :: env where
  "failing_env = demo_env\<lparr>env_send := \<lambda>_ _ _. Some (ErrNew ''down'')\<rparr>"

theorem exhaustion_retires_witness:
  "b_removals (snd (Bus_attempt failing_env ((demo_ce 1)\<lparr>ce_attempts := 39\<rparr>) demo_bus5)) = b_removals demo_bus5 @ [(''a'', 0)]"
proof -
  let ?e = "(demo_ce 1)\<lparr>ce_attempts := 39\<rparr>"
  obtain r e1 b1 where at: "Bus_attempt failing_env ?e demo_bus5 = ((r, e1), b1)" by (metis surj_pair)
  have facts: "Bus_isCurrentEvent ?e demo_bus5" "client_isActive (ce_client ?e) demo_bus5" "cfg_attempts (b_config demo_bus5) = 40"
    by (simp_all add: Bus_isCurrentEvent_def client_isActive_def demo_ce_def demo_bus5_def demo_bus4_def demo_bus3_eq demo_bus1_eq
        demo_bus0_def initial_bus_def defaultConfig_def demo_client_def zero_client_def)
  show ?thesis
    using exhaustion_retires [OF facts(1,2) _ _ _ _ _ at, of "ErrNew ''down''"] facts(3) at
    by (simp add: failing_env_def max_int32_def) (simp add: demo_ce_def)
qed

end
