(* ===== verification/Queries.thy ===== *)
theory Queries
  imports Scenario
begin

text \<open>
  The subscription calls and the queries of \<^verbatim>\<open>bus.go\<close> on a whole bus: what each
  subscription call changes, and that the queries are exact, sorted and free of duplicates for every
  iteration order of Go maps. The laws of the registry come from the locale
  \<open>subscription_registry\<close> through \<open>memory_subscription_registry\<close>.
\<close>

text \<open>C36. After \<^verbatim>\<open>SubscribeOnly\<close> with a non-empty event name a client is subscribed to exactly that event; with the
  empty name, which adds nothing, it keeps at most a subscription to the empty name that it had;
  \<^verbatim>\<open>UnsubscribeFromAll\<close> keeps exactly the listed events of the client that it had;
  \<^verbatim>\<open>Subscribe\<close> adds the listed non-empty events, or the default event when none is listed; \<^verbatim>\<open>Unsubscribe\<close>
  drops one. With each of the four, no other client's subscription and nothing else of the bus changes.\<close>

theorem subscription_calls:
  assumes ok: "registry_ok (b_registry b)" and range: "enumerates (env_range env (log b))"
  shows "(\<forall>c' e'. Registry_IsSubscribed c' e' (b_registry (Bus_SubscribeOnly env c e b)) \<longleftrightarrow>
      (if c' = c then e' = e \<and> (e \<noteq> [] \<or> Registry_IsSubscribed c [] (b_registry b)) else Registry_IsSubscribed c' e' (b_registry b))) \<and>
    (\<forall>c' e'. Registry_IsSubscribed c' e' (b_registry (Bus_UnsubscribeFromAll env c keep b)) \<longleftrightarrow>
      (c' = c \<longrightarrow> e' \<in> set keep) \<and> Registry_IsSubscribed c' e' (b_registry b)) \<and>
    (\<forall>c' e'. Registry_IsSubscribed c' e' (b_registry (Bus_Subscribe c es b)) \<longleftrightarrow>
      (c' = c \<and> e' \<noteq> [] \<and> e' \<in> set (if es = [] then [DefaultEvent] else es)) \<or> Registry_IsSubscribed c' e' (b_registry b)) \<and>
    (\<forall>c' e'. Registry_IsSubscribed c' e' (b_registry (Bus_Unsubscribe c e b)) \<longleftrightarrow>
      \<not> (c' = c \<and> e' = e) \<and> Registry_IsSubscribed c' e' (b_registry b)) \<and>
    Bus_SubscribeOnly env c e b = b\<lparr>b_registry := b_registry (Bus_SubscribeOnly env c e b)\<rparr> \<and>
    Bus_UnsubscribeFromAll env c keep b = b\<lparr>b_registry := b_registry (Bus_UnsubscribeFromAll env c keep b)\<rparr> \<and>
    Bus_Subscribe c es b = b\<lparr>b_registry := b_registry (Bus_Subscribe c es b)\<rparr> \<and>
    Bus_Unsubscribe c e b = b\<lparr>b_registry := b_registry (Bus_Unsubscribe c e b)\<rparr>"
proof -
  note reg = memory_subscription_registry [OF range]
  have all: "Registry_IsSubscribed c' e' (b_registry (Bus_UnsubscribeFromAll env c kept b)) \<longleftrightarrow>
      (c' = c \<longrightarrow> e' \<in> set kept) \<and> Registry_IsSubscribed c' e' (b_registry b)" for c' e' kept
    using subscription_registry.unsubscribe_from_all_iff [OF reg ok] by (simp add: Bus_UnsubscribeFromAll_def)
  have add: "Registry_IsSubscribed c' e' (b_registry (Bus_Subscribe c ev w)) \<longleftrightarrow>
      (c' = c \<and> e' \<noteq> [] \<and> e' \<in> set (if ev = [] then [DefaultEvent] else ev)) \<or> Registry_IsSubscribed c' e' (b_registry w)"
    if "registry_ok (b_registry w)" for c' e' ev w
    using sorted_registry.subscribe_events_iff [OF that] by (simp add: Bus_Subscribe_def)
  have "registry_ok (b_registry (Bus_UnsubscribeFromAll env c [e] b))"
    using registry_ok_unsubscribe_from_all [OF ok] by (simp add: Bus_UnsubscribeFromAll_def)
  note only = add [OF this, of _ _ "[e]", folded Bus_SubscribeOnly_def]
  have "\<forall>c' e'. Registry_IsSubscribed c' e' (b_registry (Bus_SubscribeOnly env c e b)) \<longleftrightarrow>
      (if c' = c then e' = e \<and> (e \<noteq> [] \<or> Registry_IsSubscribed c [] (b_registry b)) else Registry_IsSubscribed c' e' (b_registry b))"
    by (auto simp: only all)
  moreover have "\<forall>c' e'. Registry_IsSubscribed c' e' (b_registry (Bus_UnsubscribeFromAll env c keep b)) \<longleftrightarrow>
      (c' = c \<longrightarrow> e' \<in> set keep) \<and> Registry_IsSubscribed c' e' (b_registry b)"
    using all by blast
  moreover have "\<forall>c' e'. Registry_IsSubscribed c' e' (b_registry (Bus_Subscribe c es b)) \<longleftrightarrow>
      (c' = c \<and> e' \<noteq> [] \<and> e' \<in> set (if es = [] then [DefaultEvent] else es)) \<or> Registry_IsSubscribed c' e' (b_registry b)"
    using add [OF ok] by blast
  moreover have "\<forall>c' e'. Registry_IsSubscribed c' e' (b_registry (Bus_Unsubscribe c e b)) \<longleftrightarrow>
      \<not> (c' = c \<and> e' = e) \<and> Registry_IsSubscribed c' e' (b_registry b)"
    by (simp add: Bus_Unsubscribe_def IsSubscribed_Unsubscribe)
  moreover have "Bus_SubscribeOnly env c e b = b\<lparr>b_registry := b_registry (Bus_SubscribeOnly env c e b)\<rparr>"
      "Bus_UnsubscribeFromAll env c keep b = b\<lparr>b_registry := b_registry (Bus_UnsubscribeFromAll env c keep b)\<rparr>"
      "Bus_Subscribe c es b = b\<lparr>b_registry := b_registry (Bus_Subscribe c es b)\<rparr>"
      "Bus_Unsubscribe c e b = b\<lparr>b_registry := b_registry (Bus_Unsubscribe c e b)\<rparr>"
    by (simp_all add: Bus_Unsubscribe_def Bus_SubscribeOnly_def Bus_UnsubscribeFromAll_def Bus_Subscribe_def)
  ultimately show ?thesis by blast
qed

theorem subscription_calls_witness:
  "Registry_IsSubscribed ''a'' ''y'' (b_registry (Bus_SubscribeOnly demo_env ''a'' ''y'' demo_bus1)) \<and>
   \<not> Registry_IsSubscribed ''a'' ''x'' (b_registry (Bus_SubscribeOnly demo_env ''a'' ''y'' demo_bus1)) \<and>
   \<not> Registry_IsSubscribed ''a'' ''x'' (b_registry (Bus_SubscribeOnly demo_env ''a'' [] demo_bus1))"
proof -
  have "registry_ok (b_registry demo_bus1)" by (simp add: demo_bus1_eq registry_ok_def)
  from subscription_calls [OF this demo_env_range, of "''a''" "''y''"] subscription_calls [OF this demo_env_range, of "''a''" "[]"]
  show ?thesis by simp
qed

text \<open>C37. The queries of a bus are exact: \<^verbatim>\<open>ClientIDs\<close>, \<^verbatim>\<open>Events\<close>,
  \<^verbatim>\<open>Subscribers\<close> and the lists of \<^verbatim>\<open>Subscriptions\<close> are sorted, without duplicates, and hold
  precisely the registered clients, the events with a subscriber and the subscribers; the counting queries are the lengths of
  the lists, whatever order the maps are ranged over.\<close>

theorem queries_exact:
  assumes inv: "bus_inv held b" and range: "enumerates (env_range env (log b))"
  shows "sorted_wrt (<) (Bus_ClientIDs env b) \<and> set (Bus_ClientIDs env b) = {c. Bus_IsClientRegistered c b} \<and>
    Bus_ClientCount b = length (Bus_ClientIDs env b) \<and>
    sorted_wrt (<) (Bus_Subscribers env e b) \<and> set (Bus_Subscribers env e b) = {c. Registry_IsSubscribed c e (b_registry b)} \<and>
    Bus_CountSubscribers e b = length (Bus_Subscribers env e b) \<and> (Bus_HasSubscribers e b \<longleftrightarrow> Bus_Subscribers env e b \<noteq> []) \<and>
    sorted_wrt (<) (Bus_Events env b) \<and> set (Bus_Events env b) = {e. Bus_HasSubscribers e b} \<and>
    Bus_Subscriptions env b e = (if Bus_HasSubscribers e b then Some (Bus_Subscribers env e b) else None)"
proof -
  have reg: "registry_ok (b_registry b)" and fin: "finite (dom (b_clients b))"
    using bus_invD(2) [OF inv] by (simp_all add: parts_ok_def)
  have strict: "sorted_wrt (<) (sort xs)" if "distinct xs" for xs :: "string list"
    using that by (simp add: strict_sorted_iff)
  have has: "Bus_HasSubscribers e' b \<longleftrightarrow> e' \<in> dom (subs (b_registry b))" for e'
    using registry_okD [OF reg, of e']
    by (cases "subs (b_registry b) e'") (auto simp: Bus_HasSubscribers_def Registry_HasSubscribers_def Registry_CountSubscribers_def card_gt_0_iff)
  have "Bus_Subscribers env e b \<noteq> [] \<longleftrightarrow> e \<in> dom (subs (b_registry b))"
    using set_Subscribers [OF range reg, of e] dom_subs_iff [OF reg, of e] unfolding Bus_Subscribers_def
    by (metis (mono_tags, lifting) Collect_empty_eq set_empty set_sort)
  moreover have "Bus_Subscriptions env b e = (if e \<in> dom (subs (b_registry b)) then Some (Bus_Subscribers env e b) else None)"
    by (cases "subs (b_registry b) e")
      (auto simp: Bus_Subscriptions_def Bus_Subscribers_def Registry_AllSubscriptions_def Registry_Subscribers_def)
  moreover have "set (Bus_Events env b) = {e. e \<in> dom (subs (b_registry b))}" "sorted_wrt (<) (Bus_Events env b)"
    using range reg by (simp_all add: Bus_Events_def Registry_AllEvents_def strict)
  moreover have "sorted_wrt (<) (Bus_Subscribers env e b)" "set (Bus_Subscribers env e b) = {c. Registry_IsSubscribed c e (b_registry b)}"
      "Bus_CountSubscribers e b = length (Bus_Subscribers env e b)"
    using set_Subscribers [OF range reg] distinct_Subscribers [OF range reg] Registry_CountSubscribers_length [OF range reg]
    by (simp_all add: Bus_Subscribers_def strict Bus_CountSubscribers_def)
  moreover have "sorted_wrt (<) (Bus_ClientIDs env b)" "set (Bus_ClientIDs env b) = {c. Bus_IsClientRegistered c b}"
      "Bus_ClientCount b = length (Bus_ClientIDs env b)"
    using range fin by (auto simp: Bus_ClientIDs_def Bus_IsClientRegistered_def Bus_ClientCount_def strict)
  ultimately show ?thesis by (simp add: has)
qed

theorem queries_exact_witness:
  "set (Bus_ClientIDs demo_env demo_bus3) = {c. Bus_IsClientRegistered c demo_bus3} \<and>
   Bus_CountSubscribers ''x'' demo_bus3 = length (Bus_Subscribers demo_env ''x'' demo_bus3)"
proof -
  have "system_inv (demo_system demo_bus3 [WIdle, WIdle])" by (rule reachable_inv [OF demo_reach3])
  then have "bus_inv (hands_of [WIdle, WIdle] SIdle) demo_bus3" by (simp add: system_inv_def demo_system_def)
  from queries_exact [OF this demo_env_range] show ?thesis by blast
qed

end
