(* ===== verification/Http_Frame.thy ===== *)
theory Http_Frame
  imports Sse_Event
begin

text \<open>
  The wire format of \<^verbatim>\<open>httpadapter/http.go\<close>: \<^verbatim>\<open>splitLines\<close>, \<^verbatim>\<open>writeField\<close>, the checks at
  the top of \<^verbatim>\<open>connection.Send\<close> and the frame it builds. Beside it stands a reference parser
  for the EventSource stream format (lines end at CR LF, LF or CR; a leading colon is a comment;
  one space after the field's colon is dropped; an empty line dispatches). The round trip shows that
  a parser reads back exactly the message that was sent, and nothing else.
\<close>

section \<open>Splitting and writing lines\<close>

text \<open>\<^verbatim>\<open>strings.ReplaceAll(value, "\r\n", "\n")\<close>, then \<^verbatim>\<open>"\r"\<close>, then \<^verbatim>\<open>strings.Split\<close>.\<close>

fun replace_crlf :: "string \<Rightarrow> string" where
  "replace_crlf (c # d # s) =
     (if c = CR \<and> d = LF then LF # replace_crlf s else c # replace_crlf (d # s))"
| "replace_crlf s = s"

definition replace_cr :: "string \<Rightarrow> string" where
  "replace_cr s = map (\<lambda>c. if c = CR then LF else c) s"

fun split_lf :: "string \<Rightarrow> string list" where
  "split_lf [] = [[]]"
| "split_lf (c # s) =
     (if c = LF then [] # split_lf s
      else case split_lf s of [] \<Rightarrow> [[c]] | l # ls \<Rightarrow> (c # l) # ls)"

definition splitLines :: "string \<Rightarrow> string list" where
  "splitLines value = split_lf (replace_cr (replace_crlf value))"

definition writeField :: "string \<Rightarrow> string \<Rightarrow> string \<Rightarrow> string" where
  "writeField builder name value =
     builder @ name @ '':'' @ (if take 1 value = '' '' then '' '' else []) @ value @ [LF]"

text \<open>\<^verbatim>\<open>strconv.FormatInt(_, 10)\<close> and \<^verbatim>\<open>Duration.Milliseconds\<close>.\<close>

definition digit_char :: "nat \<Rightarrow> char" where
  "digit_char d = char_of (48 + d)"

fun format_nat :: "nat \<Rightarrow> string" where
  "format_nat n = (if n < 10 then [digit_char n] else format_nat (n div 10) @ [digit_char (n mod 10)])"

declare format_nat.simps [simp del]

definition FormatInt :: "int \<Rightarrow> string" where
  "FormatInt i = (if i < 0 then ''-'' @ format_nat (nat (- i)) else format_nat (nat i))"

definition Milliseconds :: "duration \<Rightarrow> int" where
  "Milliseconds d = (if d \<ge> 0 then d div 1000000 else - ((- d) div 1000000))"

section \<open>The message check and the frame\<close>

definition validateMessage :: "message \<Rightarrow> err option" where
  "validateMessage m =
     (if ContainsAny (msg_Event m) [CR, LF]
      then Some (ErrWrap ''event contains a line break'' ErrInvalidMessage)
      else if ContainsAny (msg_ID m) [NUL, CR, LF]
      then Some (ErrWrap ''ID contains a null or line break'' ErrInvalidMessage)
      else if msg_Retry m < 0
      then Some (ErrWrap ''retry duration is negative'' ErrInvalidMessage)
      else None)"

definition encodeMessage :: "message \<Rightarrow> string" where
  "encodeMessage m =
     (let b0 = [];
          b1 = (if msg_Comment m \<noteq> []
                then fold (\<lambda>line b. b @ '':'' @ line @ [LF]) (splitLines (msg_Comment m)) b0 else b0);
          b2 = (if msg_Event m \<noteq> [] \<and> msg_Event m \<noteq> DefaultEvent
                then writeField b1 ''event'' (msg_Event m) else b1);
          b3 = (if msg_ID m \<noteq> [] then writeField b2 ''id'' (msg_ID m) else b2);
          b4 = (if msg_Retry m > 0
                then b3 @ ''retry:'' @ FormatInt (Milliseconds (msg_Retry m)) @ [LF] else b3);
          b5 = (if msg_HasData m
                then fold (\<lambda>line b. writeField b ''data'' line) (splitLines (msg_Data m)) b4 else b4)
      in b5 @ [LF])"

section \<open>The reference parser\<close>

fun stream_lines :: "string \<Rightarrow> string list" where
  "stream_lines [] = [[]]"
| "stream_lines (c # s) =
     (if c = LF then [] # stream_lines s
      else if c = CR then (case s of
          [] \<Rightarrow> [] # [[]]
        | d # s' \<Rightarrow> if d = LF then [] # stream_lines s' else [] # stream_lines s)
      else case stream_lines s of [] \<Rightarrow> [[c]] | l # ls \<Rightarrow> (c # l) # ls)"

record sse_event =
  se_type :: string
  se_data :: string
  se_lastEventId :: string

record sse_parser =
  sp_type :: string
  sp_data :: string
  sp_lastEventId :: string
  sp_retry :: "nat option"
  sp_dispatched :: "sse_event list"

definition all_digits :: "string \<Rightarrow> bool" where
  "all_digits s \<longleftrightarrow> s \<noteq> [] \<and> (\<forall>c \<in> set s. 48 \<le> (of_char c :: nat) \<and> (of_char c :: nat) \<le> 57)"

definition read_nat :: "string \<Rightarrow> nat" where
  "read_nat s = foldl (\<lambda>n c. 10 * n + (of_char c - 48)) 0 s"

definition sse_field :: "string \<Rightarrow> string \<Rightarrow> sse_parser \<Rightarrow> sse_parser" where
  "sse_field name value p =
     (if name = ''event'' then p\<lparr>sp_type := value\<rparr>
      else if name = ''data'' then p\<lparr>sp_data := sp_data p @ value @ [LF]\<rparr>
      else if name = ''id'' then (if NUL \<in> set value then p else p\<lparr>sp_lastEventId := value\<rparr>)
      else if name = ''retry'' then (if all_digits value then p\<lparr>sp_retry := Some (read_nat value)\<rparr> else p)
      else p)"

definition sse_dispatch :: "sse_parser \<Rightarrow> sse_parser" where
  "sse_dispatch p =
     (if sp_data p = [] then p\<lparr>sp_type := []\<rparr>
      else p\<lparr>sp_type := [], sp_data := [],
             sp_dispatched := sp_dispatched p @
               [\<lparr>se_type = (if sp_type p = [] then ''message'' else sp_type p),
                 se_data = (if last (sp_data p) = LF then butlast (sp_data p) else sp_data p),
                 se_lastEventId = sp_lastEventId p\<rparr>]\<rparr>)"

definition sse_line :: "string \<Rightarrow> sse_parser \<Rightarrow> sse_parser" where
  "sse_line line p =
     (if line = [] then sse_dispatch p
      else if hd line = CHR '':'' then p
      else if CHR '':'' \<in> set line
      then let name = takeWhile (\<lambda>c. c \<noteq> CHR '':'') line;
               rest = tl (dropWhile (\<lambda>c. c \<noteq> CHR '':'') line);
               value = (if take 1 rest = '' '' then tl rest else rest)
           in sse_field name value p
      else sse_field line [] p)"

text \<open>Only complete lines are processed; what follows the last line end stays in the buffer.\<close>

definition sse_parse :: "string \<Rightarrow> sse_parser \<Rightarrow> sse_parser" where
  "sse_parse text p = fold sse_line (butlast (stream_lines text)) p"

section \<open>splitLines is the line splitting of the format\<close>

lemma split_lf_nonempty [simp]: "split_lf s \<noteq> []"
  by (cases s) (auto split: list.split)

lemma stream_lines_nonempty [simp]: "stream_lines s \<noteq> []"
  by (cases s) (auto split: list.split)

lemma replace_crlf_Cons: "replace_crlf (c # s) = (if c = CR \<and> take 1 s = [LF] then LF # replace_crlf (tl s) else c # replace_crlf s)"
  by (cases s) auto

lemma splitLines_stream_lines: "splitLines s = stream_lines s"
proof (induction s rule: stream_lines.induct)
  case (2 c s)
  show ?case
  proof (cases "c = CR")
    case True
    then show ?thesis
      using 2 by (cases s) (auto simp: splitLines_def replace_cr_def)
  next
    case False
    then have "splitLines (c # s) = (if c = LF then [] # splitLines s
        else case splitLines s of [] \<Rightarrow> [[c]] | l # ls \<Rightarrow> (c # l) # ls)"
      by (simp add: splitLines_def replace_cr_def replace_crlf_Cons)
    with False 2 show ?thesis by simp
  qed
qed (simp add: splitLines_def replace_cr_def)

lemma split_lf_lines: "l \<in> set (split_lf s) \<Longrightarrow> LF \<notin> set l \<and> set l \<subseteq> set s"
proof (induction s arbitrary: l)
  case (Cons c s)
  obtain a ls where s: "split_lf s = a # ls" by (cases "split_lf s") auto
  then have "LF \<notin> set a \<and> set a \<subseteq> set s" using Cons.IH [of a] by simp
  then show ?case using Cons.prems Cons.IH [of l] s by (auto split: if_splits)
qed simp

lemma splitLines_no_breaks: "l \<in> set (splitLines s) \<Longrightarrow> CR \<notin> set l \<and> LF \<notin> set l"
  using split_lf_lines [of l "replace_cr (replace_crlf s)"] by (auto simp: splitLines_def replace_cr_def)

definition no_breaks :: "string \<Rightarrow> bool" where
  "no_breaks s \<longleftrightarrow> CR \<notin> set s \<and> LF \<notin> set s"

lemma stream_lines_line: "no_breaks l \<Longrightarrow> stream_lines (l @ LF # s) = l # stream_lines s"
  by (induction l) (auto simp: no_breaks_def)

lemma stream_lines_concat:
  "\<forall>l \<in> set ls. no_breaks l \<Longrightarrow> stream_lines (concat (map (\<lambda>l. l @ [LF]) ls)) = ls @ [[]]"
  by (induction ls) (auto simp: stream_lines_line)

section \<open>A frame is a list of lines\<close>

definition field_line :: "string \<Rightarrow> string \<Rightarrow> string" where
  "field_line name value = name @ '':'' @ (if take 1 value = '' '' then '' '' else []) @ value"

definition frame_lines :: "message \<Rightarrow> string list" where
  "frame_lines m =
     (if msg_Comment m \<noteq> [] then map (\<lambda>l. '':'' @ l) (splitLines (msg_Comment m)) else []) @
     (if msg_Event m \<noteq> [] \<and> msg_Event m \<noteq> DefaultEvent then [field_line ''event'' (msg_Event m)] else []) @
     (if msg_ID m \<noteq> [] then [field_line ''id'' (msg_ID m)] else []) @
     (if msg_Retry m > 0 then [''retry:'' @ FormatInt (Milliseconds (msg_Retry m))] else []) @
     (if msg_HasData m then map (field_line ''data'') (splitLines (msg_Data m)) else []) @ [[]]"

lemma writeField_line: "writeField b name value = b @ field_line name value @ [LF]"
  by (simp add: writeField_def field_line_def)

lemma fold_append_lines: "fold (\<lambda>l b. b @ f l @ [LF]) ls b = b @ concat (map (\<lambda>l. f l @ [LF]) ls)"
  by (induction ls arbitrary: b) simp_all

lemma encodeMessage_lines: "encodeMessage m = concat (map (\<lambda>l. l @ [LF]) (frame_lines m))"
proof -
  have colon: "fold (\<lambda>line b. b @ '':'' @ line @ [LF]) ls b = b @ concat (map (\<lambda>l. ('':'' @ l) @ [LF]) ls)" for ls b
    using fold_append_lines [of "\<lambda>l. '':'' @ l" ls b] by simp
  show ?thesis
    unfolding encodeMessage_def frame_lines_def Let_def colon writeField_line fold_append_lines
    by (simp add: comp_def)
qed

section \<open>Decimal numbers\<close>

lemma of_char_digit: "d < 10 \<Longrightarrow> (of_char (digit_char d) :: nat) = 48 + d"
  by (simp add: digit_char_def)

lemma format_nat_digits: "c \<in> set (format_nat n) \<Longrightarrow> 48 \<le> (of_char c :: nat) \<and> (of_char c :: nat) \<le> 57"
proof (induction n rule: format_nat.induct)
  case (1 n)
  show ?case
  proof (cases "n < 10")
    case True
    then show ?thesis using "1.prems" by (simp add: format_nat.simps [of n] of_char_digit)
  next
    case False
    then have "c \<in> set (format_nat (n div 10)) \<or> c = digit_char (n mod 10)"
      using "1.prems" by (auto simp: format_nat.simps [of n])
    then show ?thesis using "1.IH" [OF False] of_char_digit [of "n mod 10"] by auto
  qed
qed

lemma format_nat_nonempty [simp]: "format_nat n \<noteq> []"
  by (subst format_nat.simps) simp

lemma all_digits_format: "all_digits (format_nat n)"
  using format_nat_digits by (simp add: all_digits_def)

lemma read_format_nat: "read_nat (format_nat n) = n"
proof (induction n rule: format_nat.induct)
  case (1 n)
  show ?case
  proof (cases "n < 10")
    case True
    then show ?thesis by (simp add: format_nat.simps [of n] read_nat_def of_char_digit)
  next
    case False
    then have "read_nat (format_nat n) = 10 * read_nat (format_nat (n div 10)) + n mod 10"
      by (simp add: format_nat.simps [of n] read_nat_def of_char_digit)
    then show ?thesis using "1.IH" [OF False] by simp
  qed
qed

lemma format_nat_char: "c \<in> set (format_nat n) \<Longrightarrow> c \<noteq> CR \<and> c \<noteq> LF \<and> c \<noteq> CHR '' '' \<and> c \<noteq> CHR '':''"
  using format_nat_digits [of c n] by auto

section \<open>The parser on the lines of a frame\<close>

lemma sse_line_comment [simp]: "sse_line (CHR '':'' # l) p = p"
  by (simp add: sse_line_def)

lemma sse_line_split:
  assumes "name \<noteq> []" "CHR '':'' \<notin> set name"
  shows "sse_line (name @ CHR '':'' # rest) p = sse_field name (if take 1 rest = '' '' then tl rest else rest) p"
proof -
  have "takeWhile (\<lambda>c. c \<noteq> CHR '':'') (name @ CHR '':'' # rest) = name"
    and "dropWhile (\<lambda>c. c \<noteq> CHR '':'') (name @ CHR '':'' # rest) = CHR '':'' # rest"
    using assms(2) by (auto simp: takeWhile_append dropWhile_append)
  moreover have "hd (name @ CHR '':'' # rest) \<noteq> CHR '':''" using assms by (cases name) auto
  ultimately show ?thesis using assms(1) by (simp add: sse_line_def Let_def)
qed

lemma sse_line_field:
  assumes "name \<noteq> []" "CHR '':'' \<notin> set name"
  shows "sse_line (field_line name value) p = sse_field name value p"
  using sse_line_split [OF assms] by (simp add: field_line_def)

lemma sse_line_retry:
  "sse_line (''retry:'' @ format_nat n) p = p\<lparr>sp_retry := Some n\<rparr>"
proof -
  have "take 1 (format_nat n) \<noteq> '' ''"
    using format_nat_char [of "hd (format_nat n)" n] by (cases "format_nat n") auto
  then show ?thesis
    using sse_line_split [of "''retry''" "format_nat n" p]
    by (simp add: sse_field_def all_digits_format read_format_nat)
qed

lemma fold_comments: "fold sse_line (map (\<lambda>l. '':'' @ l) ls) p = p"
  by (induction ls) simp_all

lemma fold_data:
  "fold sse_line (map (field_line ''data'') ls) p = p\<lparr>sp_data := sp_data p @ concat (map (\<lambda>l. l @ [LF]) ls)\<rparr>"
  by (induction ls arbitrary: p) (simp_all add: sse_line_field sse_field_def)

lemma concat_split_lf: "concat (map (\<lambda>l. l @ [LF]) (split_lf s)) = s @ [LF]"
proof (induction s)
  case (Cons c s)
  then show ?case by (cases "split_lf s") auto
qed simp

lemma concat_splitLines: "concat (map (\<lambda>l. l @ [LF]) (splitLines s)) = replace_cr (replace_crlf s) @ [LF]"
  by (simp add: splitLines_def concat_split_lf)

lemma validateMessage_None_iff:
  "validateMessage m = None \<longleftrightarrow>
     no_breaks (msg_Event m) \<and> no_breaks (msg_ID m) \<and> NUL \<notin> set (msg_ID m) \<and> 0 \<le> msg_Retry m"
  by (auto simp: validateMessage_def ContainsAny_def no_breaks_def)

lemma no_breaks_field_line: "no_breaks name \<Longrightarrow> no_breaks value \<Longrightarrow> no_breaks (field_line name value)"
  by (auto simp: no_breaks_def field_line_def)

lemma FormatInt_ms: "0 < d \<Longrightarrow> FormatInt (Milliseconds d) = format_nat (nat (d div 1000000))"
  by (simp add: FormatInt_def Milliseconds_def pos_imp_zdiv_neg_iff)

lemma frame_lines_no_breaks:
  assumes "validateMessage m = None" "l \<in> set (frame_lines m)"
  shows "no_breaks l"
proof -
  have lines: "no_breaks l" if "l \<in> set (splitLines s)" for l s
    using that splitLines_no_breaks by (simp add: no_breaks_def)
  have name: "no_breaks ''event''" "no_breaks ''id''" "no_breaks ''data''" by (simp_all add: no_breaks_def)
  have colon: "no_breaks (CHR '':'' # l)" if "no_breaks l" for l using that by (simp add: no_breaks_def)
  have retry: "no_breaks (''retry:'' @ format_nat n)" for n
    using format_nat_char by (auto simp: no_breaks_def)
  show ?thesis
    using assms unfolding validateMessage_None_iff frame_lines_def
    by (auto simp: FormatInt_ms retry [simplified] lines colon no_breaks_field_line name split: if_splits)
      (simp add: no_breaks_def)
qed

lemma sse_parse_encode: 
  "validateMessage m = None \<Longrightarrow> sse_parse (encodeMessage m) p = fold sse_line (frame_lines m) p"
  by (simp add: sse_parse_def encodeMessage_lines stream_lines_concat frame_lines_no_breaks)

section \<open>Round trips\<close>

text \<open>What the peer of a stream sees of one message.\<close>

definition received :: "message \<Rightarrow> sse_parser \<Rightarrow> sse_parser" where
  "received m p =
     (let lastId = (if msg_ID m = [] then sp_lastEventId p else msg_ID m)
      in p\<lparr>sp_lastEventId := lastId,
           sp_retry := (if msg_Retry m > 0 then Some (nat (msg_Retry m div 1000000)) else sp_retry p),
           sp_dispatched := sp_dispatched p @
             (if msg_HasData m
              then [\<lparr>se_type = (if msg_Event m = [] then ''message'' else msg_Event m),
                     se_data = replace_cr (replace_crlf (msg_Data m)), se_lastEventId = lastId\<rparr>]
              else [])\<rparr>)"

lemma fold_frame_lines:
  assumes valid: "validateMessage m = None" and p: "sp_type p = []" "sp_data p = []"
  shows "fold sse_line (frame_lines m) p = received m p"
proof -
  have "no_breaks (msg_Event m)" "NUL \<notin> set (msg_ID m)" using valid by (simp_all add: validateMessage_None_iff)
  define p1 where "p1 = (if msg_Event m \<noteq> [] \<and> msg_Event m \<noteq> DefaultEvent then p\<lparr>sp_type := msg_Event m\<rparr> else p)"
  define p2 where "p2 = (if msg_ID m \<noteq> [] then p1\<lparr>sp_lastEventId := msg_ID m\<rparr> else p1)"
  define p3 where "p3 = (if msg_Retry m > 0 then p2\<lparr>sp_retry := Some (nat (msg_Retry m div 1000000))\<rparr> else p2)"
  define p4 where "p4 = (if msg_HasData m then p3\<lparr>sp_data := replace_cr (replace_crlf (msg_Data m)) @ [LF]\<rparr> else p3)"
  have d3: "sp_data p3 = []" by (simp add: p3_def p2_def p1_def p)
  have comment: "fold sse_line (if msg_Comment m \<noteq> [] then map (\<lambda>l. '':'' @ l) (splitLines (msg_Comment m)) else []) p = p"
    using fold_comments by simp
  have event: "fold sse_line (if msg_Event m \<noteq> [] \<and> msg_Event m \<noteq> DefaultEvent then [field_line ''event'' (msg_Event m)] else []) p = p1"
    by (simp add: p1_def sse_line_field sse_field_def)
  have ident: "fold sse_line (if msg_ID m \<noteq> [] then [field_line ''id'' (msg_ID m)] else []) p1 = p2"
    using \<open>NUL \<notin> set (msg_ID m)\<close> by (simp add: p2_def sse_line_field sse_field_def)
  have retry: "fold sse_line (if msg_Retry m > 0 then [''retry:'' @ FormatInt (Milliseconds (msg_Retry m))] else []) p2 = p3"
    using sse_line_retry by (simp add: p3_def FormatInt_ms)
  have data: "fold sse_line (if msg_HasData m then map (field_line ''data'') (splitLines (msg_Data m)) else []) p3 = p4"
    using fold_data [of "splitLines (msg_Data m)" p3] by (simp add: p4_def d3 concat_splitLines)
  have "fold sse_line (frame_lines m) p = sse_dispatch p4"
    using comment event ident retry data by (simp add: frame_lines_def sse_line_def)
  also have "\<dots> = received m p"
    by (cases p) (use p in \<open>simp add: p4_def p3_def p2_def p1_def sse_dispatch_def received_def Let_def DefaultEvent_def\<close>)
  finally show ?thesis .
qed

text \<open>The frame of a message is read back by an EventSource parser as exactly that message:
  comments are ignored, the ID and the retry time are taken over, and data, even empty data, is
  dispatched as one event with the message's type and with line breaks normalised; the
  parser's buffers are empty again.\<close>

lemma sse_roundtrip:
  assumes "validateMessage m = None" "sp_type p = []" "sp_data p = []"
  shows "sse_parse (encodeMessage m) p = received m p \<and> sp_type (received m p) = [] \<and> sp_data (received m p) = []"
  using sse_parse_encode [OF assms(1)] fold_frame_lines [OF assms] assms(2,3) by (simp add: received_def Let_def)

definition demo_message :: message where
  "demo_message = \<lparr>msg_Event = ''tick'', msg_Data = ''a'' @ [CR, LF] @ ''data:b'', msg_HasData = True,
     msg_Retry = 2000000, msg_ID = ''7'', msg_Comment = ''event:x''\<rparr>"

definition fresh_parser :: sse_parser where
  "fresh_parser = \<lparr>sp_type = [], sp_data = [], sp_lastEventId = [], sp_retry = None, sp_dispatched = []\<rparr>"

lemma demo_message_valid: "validateMessage demo_message = None"
  by (simp add: validateMessage_def demo_message_def ContainsAny_def)

lemma fold_received_empty:
  "sp_type p = [] \<Longrightarrow> sp_data p = [] \<Longrightarrow> sp_type (fold received ms p) = [] \<and> sp_data (fold received ms p) = []"
  by (induction ms arbitrary: p) (simp_all add: received_def Let_def)

text \<open>C21. A stream of frames is read back by an EventSource parser as the sequence of its messages: comments are
  ignored, IDs and retry times are taken over, data, even empty data, is dispatched as one event with the message's type and with
  line breaks normalised, and the buffers are empty again. No content of a
  message (line breaks in the data or the comment, field names in the data) can open, close or
  change another event.\<close>

theorem stream_roundtrip:
  assumes "\<forall>m \<in> set ms. validateMessage m = None" "sp_type p = []" "sp_data p = []"
  shows "sse_parse (concat (map encodeMessage ms)) p = fold received ms p \<and>
    sp_type (fold received ms p) = [] \<and> sp_data (fold received ms p) = []"
proof -
  have "concat (map encodeMessage ms) = concat (map (\<lambda>l. l @ [LF]) (concat (map frame_lines ms)))"
    by (induction ms) (simp_all add: encodeMessage_lines)
  moreover have "\<forall>l \<in> set (concat (map frame_lines ms)). no_breaks l"
    using assms(1) frame_lines_no_breaks by auto
  ultimately have "sse_parse (concat (map encodeMessage ms)) p = fold sse_line (concat (map frame_lines ms)) p"
    by (simp add: sse_parse_def stream_lines_concat)
  also have "\<dots> = fold received ms p" using assms
  proof (induction ms arbitrary: p)
    case (Cons m ms)
    then show ?case using fold_frame_lines [of m p] by (simp add: received_def Let_def)
  qed simp
  finally show ?thesis using fold_received_empty [OF assms(2,3)] by simp
qed

theorem stream_roundtrip_witness:
  "sp_dispatched (sse_parse (concat (map encodeMessage [demo_message, demo_message])) fresh_parser) =
     replicate 2 \<lparr>se_type = ''tick'', se_data = ''a'' @ [LF] @ ''data:b'', se_lastEventId = ''7''\<rparr>"
  using stream_roundtrip [of "[demo_message, demo_message]" fresh_parser] demo_message_valid
  by (simp add: fresh_parser_def received_def demo_message_def replace_cr_def Let_def numeral_2_eq_2)

text \<open>C22. \<^verbatim>\<open>splitLines\<close> splits exactly where a stream parser ends a line: at CR LF (as one
  break), at LF and at CR.\<close>

theorem splitLines_as_parser: "splitLines s = stream_lines s"
  by (rule splitLines_stream_lines)

end
