(* ===== verification/Http_Connection.thy ===== *)
theory Http_Connection
  imports Http_Frame Options
begin

text \<open>
  The HTTP connection of \<^verbatim>\<open>httpadapter/http.go\<close>: the \<^verbatim>\<open>connection\<close> struct with \<^verbatim>\<open>Send\<close>,
  \<^verbatim>\<open>writeFrame\<close>, \<^verbatim>\<open>Close\<close>, \<^verbatim>\<open>closeLocked\<close> and \<^verbatim>\<open>openStream\<close>, the adapter options, and the header set-up
  of \<^verbatim>\<open>Serve\<close>. The response writer, the flusher, the write deadline and the request
  context are outside the repository: their answers are functions of the calls made so far. The
  lemmas show that a connection never writes once it is closed, and that a transport failure
  closes it.
\<close>

section \<open>Adapter options\<close>

record http_config =
  hcfg_timeout :: duration
  hcfg_writeTimeout :: duration
  hcfg_registration :: "registration_option option list"

type_synonym http_option = "http_config \<Rightarrow> http_config"

definition WithTimeout :: "duration \<Rightarrow> http_option" where
  "WithTimeout timeout c = c\<lparr>hcfg_timeout := timeout\<rparr>"

definition WithWriteTimeout :: "duration \<Rightarrow> http_option" where
  "WithWriteTimeout timeout c = c\<lparr>hcfg_writeTimeout := timeout\<rparr>"

definition WithRegistration :: "registration_option option list \<Rightarrow> http_option" where
  "WithRegistration options c = c\<lparr>hcfg_registration := hcfg_registration c @ options\<rparr>"

definition WithLastEventID :: "string \<Rightarrow> http_option" where
  "WithLastEventID lastEventID = WithRegistration [Some (ReplayFrom lastEventID)]"

text \<open>The option loop of \<^verbatim>\<open>Serve\<close>, after the \<^verbatim>\<open>Last-Event-ID\<close> header was read.\<close>

fun apply_http_options :: "http_option option list \<Rightarrow> http_config \<Rightarrow> http_config" where
  "apply_http_options [] c = c"
| "apply_http_options (None # os) c = apply_http_options os c"
| "apply_http_options (Some f # os) c = apply_http_options os (f c)"

definition serve_config :: "string \<Rightarrow> http_option option list \<Rightarrow> http_config" where
  "serve_config lastEventID options =
     (let c = \<lparr>hcfg_timeout = 3 * time_Minute, hcfg_writeTimeout = 0, hcfg_registration = []\<rparr>;
          c1 = (if lastEventID \<noteq> []
                then c\<lparr>hcfg_registration := hcfg_registration c @ [Some (ReplayFrom lastEventID)]\<rparr> else c)
      in apply_http_options options c1)"

section \<open>The connection\<close>

datatype http_effect =
    DeadlineCall bool "err option"
  | WriteCall string int "err option"
  | FlushCall "err option"

record http_env =
  he_setWriteDeadline :: "http_effect list \<Rightarrow> bool \<Rightarrow> err option"
  he_write :: "http_effect list \<Rightarrow> string \<Rightarrow> int \<times> err option"
  he_flush :: "http_effect list \<Rightarrow> err option"
  he_requestDone :: "http_effect list \<Rightarrow> bool"

record http_conn =
  hc_writeTimeout :: duration
  hc_closed :: bool
  hc_err :: "err option"
  hc_log :: "http_effect list"

definition http_emit :: "http_effect \<Rightarrow> http_conn \<Rightarrow> http_conn" where
  "http_emit x c = c\<lparr>hc_log := hc_log c @ [x]\<rparr>"

definition connection_closeLocked :: "err option \<Rightarrow> http_conn \<Rightarrow> http_conn" where
  "connection_closeLocked e c = (if \<not> hc_closed c then c\<lparr>hc_closed := True, hc_err := e\<rparr> else c)"

definition connection_Close :: "http_conn \<Rightarrow> err option \<times> http_conn" where
  "connection_Close c = (None, connection_closeLocked None c)"

definition set_deadline :: "http_env \<Rightarrow> bool \<Rightarrow> http_conn \<Rightarrow> err option \<times> http_conn" where
  "set_deadline env arm c =
     (let r = he_setWriteDeadline env (hc_log c) arm in (r, http_emit (DeadlineCall arm r) c))"

text \<open>The \<^verbatim>\<open>flush\<close> closure of \<^verbatim>\<open>Serve\<close>: a controller that cannot flush is reported as
  \<^verbatim>\<open>ErrStreamingUnsupported\<close>.\<close>

definition flush_response :: "http_env \<Rightarrow> http_conn \<Rightarrow> err option \<times> http_conn" where
  "flush_response env c =
     (let r = he_flush env (hc_log c); c1 = http_emit (FlushCall r) c
      in case r of
           None \<Rightarrow> (None, c1)
         | Some e \<Rightarrow> (if errors_Is e ErrNotSupported then (Some ErrStreamingUnsupported, c1) else (Some e, c1)))"

text \<open>Write, check the count, flush.\<close>

definition write_and_flush :: "http_env \<Rightarrow> string \<Rightarrow> http_conn \<Rightarrow> err option \<times> http_conn" where
  "write_and_flush env frame c =
     (let (written, e) = he_write env (hc_log c) frame;
          c1 = http_emit (WriteCall frame written e) c
      in case e of
           Some x \<Rightarrow> (Some x, c1)
         | None \<Rightarrow> (if written \<noteq> int (length frame) then (Some ErrShortWrite, c1) else flush_response env c1))"

text \<open>The deferred functions run last in, first out: the deadline is cleared, then an error
  closes the connection.\<close>

definition connection_writeFrame :: "http_env \<Rightarrow> string \<Rightarrow> http_conn \<Rightarrow> err option \<times> http_conn" where
  "connection_writeFrame env frame c =
     (let (e, c1) =
        (if hc_writeTimeout c > 0
         then let (d, c0) = set_deadline env True c
              in case d of
                   Some x \<Rightarrow> (Some x, c0)
                 | None \<Rightarrow> (let (e, c2) = write_and_flush env frame c0 in (e, snd (set_deadline env False c2)))
         else write_and_flush env frame c)
      in (e, if e \<noteq> None then connection_closeLocked e c1 else c1))"

definition connection_Send :: "http_env \<Rightarrow> message \<Rightarrow> http_conn \<Rightarrow> err option \<times> http_conn" where
  "connection_Send env m c =
     (if hc_closed c then (Some ErrClosed, c)
      else if he_requestDone env (hc_log c) then (Some ErrClosed, c)
      else case validateMessage m of
             Some e \<Rightarrow> (Some e, c)
           | None \<Rightarrow>
               (case connection_writeFrame env (encodeMessage m) c of
                  (Some e, c1) \<Rightarrow> (errors_Join [Some ErrClosed, Some e], c1)
                | (None, c1) \<Rightarrow> (None, c1)))"

definition connection_openStream :: "http_env \<Rightarrow> http_conn \<Rightarrow> err option \<times> http_conn" where
  "connection_openStream env c =
     (if hc_closed c then (None, c) else connection_writeFrame env [CHR '':'', LF, LF] c)"

section \<open>Response headers\<close>

definition serve_headers :: "(string \<rightharpoonup> string) \<Rightarrow> (string \<rightharpoonup> string)" where
  "serve_headers h =
     (let get = (\<lambda>h k. case h k of None \<Rightarrow> [] | Some v \<Rightarrow> v);
          h1 = h(''Content-Type'' \<mapsto> ''text/event-stream'');
          h2 = (if get h1 ''Cache-Control'' = [] then h1(''Cache-Control'' \<mapsto> ''no-cache'') else h1)
      in if get h2 ''X-Accel-Buffering'' = [] then h2(''X-Accel-Buffering'' \<mapsto> ''no'') else h2)"

section \<open>Lemmas\<close>

text \<open>The frames that were written completely: no error, and every byte counted.\<close>

fun writes :: "http_effect list \<Rightarrow> string list" where
  "writes [] = []"
| "writes (WriteCall f n e # xs) = (if e = None \<and> n = int (length f) then f # writes xs else writes xs)"
| "writes (_ # xs) = writes xs"

lemma writes_append [simp]: "writes (xs @ ys) = writes xs @ writes ys"
  by (induction xs rule: writes.induct) simp_all

lemma http_emit_simps [simp]:
  "hc_log (http_emit x c) = hc_log c @ [x]" "hc_closed (http_emit x c) = hc_closed c"
  "hc_err (http_emit x c) = hc_err c" "hc_writeTimeout (http_emit x c) = hc_writeTimeout c"
  by (simp_all add: http_emit_def)

lemma closeLocked_simps [simp]:
  "hc_closed (connection_closeLocked e c)" "hc_log (connection_closeLocked e c) = hc_log c"
  "hc_closed c \<Longrightarrow> connection_closeLocked e c = c"
  "\<not> hc_closed c \<Longrightarrow> hc_err (connection_closeLocked e c) = e"
  by (simp_all add: connection_closeLocked_def)

text \<open>The calls of one frame, in order, and the error they amount to. With a write timeout the deadline is armed first and cleared last
  (whatever clearing it answers); the first failure decides: the deadline's error, the write's error, a short count, or the
  flush's error.\<close>

definition deadline_around :: "bool \<Rightarrow> err option \<Rightarrow> http_effect list \<Rightarrow> http_effect list" where
  "deadline_around timed d xs = (if timed then DeadlineCall True None # xs @ [DeadlineCall False d] else xs)"

definition frame_trace :: "bool \<Rightarrow> string \<Rightarrow> http_effect list \<Rightarrow> err option \<Rightarrow> bool" where
  "frame_trace timed frame calls r \<longleftrightarrow>
     (\<exists>x. timed \<and> calls = [DeadlineCall True (Some x)] \<and> r = Some x) \<or>
     (\<exists>d n x. calls = deadline_around timed d [WriteCall frame n (Some x)] \<and> r = Some x) \<or>
     (\<exists>d n. n \<noteq> int (length frame) \<and> calls = deadline_around timed d [WriteCall frame n None] \<and> r = Some ErrShortWrite) \<or>
     (\<exists>d x. calls = deadline_around timed d [WriteCall frame (int (length frame)) None, FlushCall (Some x)] \<and>
        r = Some (if errors_Is x ErrNotSupported then ErrStreamingUnsupported else x)) \<or>
     (\<exists>d. calls = deadline_around timed d [WriteCall frame (int (length frame)) None, FlushCall None] \<and> r = None)"

lemma frame_trace_writes:
  assumes "frame_trace timed frame calls r"
  shows "set (writes calls) \<subseteq> {frame}" "r = None \<Longrightarrow> writes calls = [frame]"
  using assms by (auto simp: frame_trace_def deadline_around_def split: if_splits)

lemma write_and_flush_spec:
  assumes "write_and_flush env frame c = (e, c')"
  shows "hc_closed c' = hc_closed c" "hc_err c' = hc_err c"
    "\<exists>calls. hc_log c' = hc_log c @ calls \<and> frame_trace False frame calls e"
  using assms
  by (auto simp: write_and_flush_def flush_response_def frame_trace_def deadline_around_def Let_def
      split: prod.splits option.splits if_splits) blast

lemma frame_trace_timed:
  "frame_trace False frame calls r \<Longrightarrow> frame_trace True frame (DeadlineCall True None # calls @ [DeadlineCall False d]) r"
  by (auto simp: frame_trace_def deadline_around_def)

lemma connection_writeFrame_spec:
  assumes "connection_writeFrame env frame c = (e, c')" "\<not> hc_closed c"
  shows "hc_closed c' \<longleftrightarrow> e \<noteq> None" "e \<noteq> None \<Longrightarrow> hc_err c' = e"
    "\<exists>calls. hc_log c' = hc_log c @ calls \<and> frame_trace (hc_writeTimeout c > 0) frame calls e"
proof -
  show "\<exists>calls. hc_log c' = hc_log c @ calls \<and> frame_trace (hc_writeTimeout c > 0) frame calls e"
  proof (cases "hc_writeTimeout c > 0")
    case True
    show ?thesis
    proof (cases "he_setWriteDeadline env (hc_log c) True")
      case None
      obtain e1 c2 where w: "write_and_flush env frame (http_emit (DeadlineCall True None) c) = (e1, c2)" by fastforce
      obtain calls where calls: "hc_log c2 = hc_log c @ DeadlineCall True None # calls" "frame_trace False frame calls e1"
        using write_and_flush_spec(3) [OF w] by auto
      have "e = e1" "hc_log c' = hc_log c2 @ [DeadlineCall False (he_setWriteDeadline env (hc_log c2) False)]"
        using assms(1) True None w by (auto simp: connection_writeFrame_def set_deadline_def Let_def split: if_splits)
      then show ?thesis using calls(1) frame_trace_timed [OF calls(2)] True by fastforce
    next
      case (Some x)
      then show ?thesis using assms(1) True by (auto simp: connection_writeFrame_def set_deadline_def frame_trace_def Let_def)
    qed
  next
    case False
    obtain e1 c2 where w: "write_and_flush env frame c = (e1, c2)" by fastforce
    then show ?thesis using write_and_flush_spec(3) [OF w] assms(1) False
      by (auto simp: connection_writeFrame_def Let_def split: if_splits)
  qed
qed (use assms in \<open>auto simp: connection_writeFrame_def set_deadline_def Let_def dest: write_and_flush_spec(1,2)
      split: prod.splits option.splits if_splits\<close>)

text \<open>C23. Every outcome of \<^verbatim>\<open>Send\<close> on an HTTP connection. A closed connection or an ended request
  reports \<^verbatim>\<open>ErrClosed\<close> and makes no call; an invalid message reports
  \<^verbatim>\<open>ErrInvalidMessage\<close>, makes no call and leaves the connection open. Otherwise the deadline, write and flush calls
  for the message's frame are made in order up to the first failure (an error of the deadline, an error of the write, a short
  write, an error of the flush, which is \<^verbatim>\<open>ErrStreamingUnsupported\<close> when flushing is not supported). Without a failure \<^verbatim>\<open>Send\<close>
  succeeds, exactly the frame was written completely and flushed, and the connection stays open; a failure closes the connection for good, is
  kept for \<^verbatim>\<open>Serve\<close>, and is reported together with \<^verbatim>\<open>ErrClosed\<close>.\<close>

theorem http_send_outcomes:
  assumes send: "connection_Send env m c = (r, c')"
  shows "(hc_closed c \<or> he_requestDone env (hc_log c) \<longrightarrow> r = Some ErrClosed \<and> c' = c) \<and>
    (\<not> hc_closed c \<and> \<not> he_requestDone env (hc_log c) \<longrightarrow>
       (case validateMessage m of
          Some e \<Rightarrow> r = Some e \<and> errors_Is e ErrInvalidMessage \<and> \<not> errors_Is e ErrClosed \<and> c' = c
        | None \<Rightarrow>
            (\<exists>calls failure. hc_log c' = hc_log c @ calls \<and>
               frame_trace (hc_writeTimeout c > 0) (encodeMessage m) calls failure \<and>
               (case failure of
                  None \<Rightarrow> r = None \<and> \<not> hc_closed c' \<and> writes (hc_log c') = writes (hc_log c) @ [encodeMessage m]
                | Some x \<Rightarrow> r = Some (ErrJoin [ErrClosed, x]) \<and> hc_closed c' \<and> hc_err c' = Some x))))"
proof (cases "hc_closed c \<or> he_requestDone env (hc_log c)")
  case True
  then show ?thesis using send by (auto simp: connection_Send_def split: if_splits)
next
  case open_conn: False
  show ?thesis
  proof (cases "validateMessage m")
    case None
    obtain e c1 where w: "connection_writeFrame env (encodeMessage m) c = (e, c1)" by fastforce
    have "\<not> hc_closed c" using open_conn by simp
    note spec = connection_writeFrame_spec [OF w this]
    obtain calls where calls: "hc_log c1 = hc_log c @ calls" "frame_trace (hc_writeTimeout c > 0) (encodeMessage m) calls e"
      using spec(3) by blast
    have "c' = c1" using send w open_conn None by (auto simp: connection_Send_def split: option.splits)
    then have "case e of
        None \<Rightarrow> r = None \<and> \<not> hc_closed c' \<and> writes (hc_log c') = writes (hc_log c) @ [encodeMessage m]
      | Some x \<Rightarrow> r = Some (ErrJoin [ErrClosed, x]) \<and> hc_closed c' \<and> hc_err c' = Some x"
      using send w spec(1,2) open_conn None calls(1) frame_trace_writes(2) [OF calls(2)]
      by (auto simp: connection_Send_def errors_Join_def List.map_filter_def split: option.split)
    then show ?thesis using calls open_conn None \<open>c' = c1\<close> by auto
  next
    case (Some x)
    then have "errors_Is x ErrInvalidMessage" "\<not> errors_Is x ErrClosed"
      by (auto simp: validateMessage_def split: if_splits)
    moreover have "r = Some x" "c' = c" using send open_conn Some by (auto simp: connection_Send_def)
    ultimately show ?thesis using open_conn Some by simp
  qed
qed

text \<open>A writer that counts one byte too few, without an error.\<close>

definition short_writer :: http_env where
  "short_writer = \<lparr>he_setWriteDeadline = \<lambda>_ _. None, he_write = \<lambda>_ f. (int (length f) - 1, None), he_flush = \<lambda>_. None,
     he_requestDone = \<lambda>_. False\<rparr>"

definition open_conn :: http_conn where
  "open_conn = \<lparr>hc_writeTimeout = 0, hc_closed = False, hc_err = None, hc_log = []\<rparr>"

lemma short_send_log:
  "hc_log (snd (connection_Send short_writer demo_message open_conn)) =
     [WriteCall (encodeMessage demo_message) (int (length (encodeMessage demo_message)) - 1) None]"
  using demo_message_valid
  by (simp add: connection_Send_def short_writer_def open_conn_def connection_writeFrame_def write_and_flush_def errors_Join_def
      List.map_filter_def http_emit_def connection_closeLocked_def)

theorem http_send_outcomes_witness:
  "fst (connection_Send short_writer demo_message open_conn) = Some (ErrJoin [ErrClosed, ErrShortWrite]) \<and>
   hc_closed (snd (connection_Send short_writer demo_message open_conn))"
proof -
  obtain r c' where s: "connection_Send short_writer demo_message open_conn = (r, c')" by fastforce
  have "hc_log c' = [WriteCall (encodeMessage demo_message) (int (length (encodeMessage demo_message)) - 1) None]"
    using short_send_log s by simp
  then show ?thesis using http_send_outcomes [OF s] demo_message_valid s
    by (auto simp: short_writer_def open_conn_def frame_trace_def deadline_around_def)
qed

end
