(* ===== verification/Http_Serve.thy ===== *)
theory Http_Serve
  imports Http_Connection Lifecycle
begin

text \<open>
  \<^verbatim>\<open>Serve\<close> of \<^verbatim>\<open>httpadapter/http.go\<close>, on a whole bus. The handler is split at its
  \<^verbatim>\<open>select\<close>: \<open>Serve_start\<close> runs to the early returns or to the \<^verbatim>\<open>select\<close>, \<open>Serve_finish\<close> from there to the
  return, both with the deferred close and disconnect. Between them the bus calls the
  connection; its state is what those calls, recorded in the log of the bus, make of the opened connection, and the
  bus environment \<open>http_bus_env\<close> answers with the connection's own \<^verbatim>\<open>Send\<close> and \<^verbatim>\<open>Close\<close>.
\<close>

section \<open>The connection under the bus\<close>

definition conn_effect :: "http_env \<Rightarrow> connection \<Rightarrow> effect \<Rightarrow> http_conn \<Rightarrow> http_conn" where
  "conn_effect henv self x c =
     (case x of
        SendCall r k m e \<Rightarrow> if k = self then snd (connection_Send henv m c) else c
      | HeartbeatCall r k m e \<Rightarrow> if k = self then snd (connection_Send henv m c) else c
      | CloseCall r k e \<Rightarrow> if k = self then snd (connection_Close c) else c
      | _ \<Rightarrow> c)"

definition conn_after :: "http_env \<Rightarrow> connection \<Rightarrow> history \<Rightarrow> http_conn \<Rightarrow> http_conn" where
  "conn_after henv self h c = fold (conn_effect henv self) h c"

definition http_bus_env :: "http_env \<Rightarrow> connection \<Rightarrow> http_conn \<Rightarrow> env \<Rightarrow> env" where
  "http_bus_env henv self c env =
     env\<lparr>env_send := \<lambda>h k m. if k = self then fst (connection_Send henv m (conn_after henv self h c)) else env_send env h k m,
         env_close := \<lambda>h k. if k = self then fst (connection_Close (conn_after henv self h c)) else env_close env h k\<rparr>"

section \<open>The handler\<close>


text \<open>The deferred function: close the connection, then disconnect it from the bus.\<close>

definition serve_deferred :: "http_env \<Rightarrow> env \<Rightarrow> string \<Rightarrow> connection \<Rightarrow> http_conn \<Rightarrow> bus \<Rightarrow> http_conn \<times> bus" where
  "serve_deferred henv env clientID self c b =
     (let c1 = snd (connection_Close c)
      in (c1, snd (Bus_Disconnect (http_bus_env henv self c1 env) clientID self b)))"




text \<open>After the \<^verbatim>\<open>select\<close>: the connection's error is read, then the deferred function runs.\<close>

definition Serve_finish :: "http_env \<Rightarrow> env \<Rightarrow> string \<Rightarrow> connection \<Rightarrow> http_conn \<Rightarrow> bus \<Rightarrow> err option \<times> http_conn \<times> bus" where
  "Serve_finish henv env clientID self c1 b =
     (let c = conn_after henv self (log b) c1
      in (hc_err c, serve_deferred henv env clientID self c b))"

section \<open>Lemmas\<close>

lemma closed_Send: "hc_closed c \<Longrightarrow> connection_Send henv m c = (Some ErrClosed, c)"
  by (simp add: connection_Send_def)

lemma closed_Close: "hc_closed c \<Longrightarrow> connection_Close c = (None, c)"
  by (simp add: connection_Close_def)

lemma closed_effect: "hc_closed c \<Longrightarrow> conn_effect henv self x c = c"
  by (cases x) (simp_all add: conn_effect_def closed_Send closed_Close)

lemma closed_after: "hc_closed c \<Longrightarrow> conn_after henv self h c = c"
  unfolding conn_after_def by (induction h) (simp_all add: closed_effect)

lemma closed_Close_after: "hc_closed (snd (connection_Close c))"
  by (simp add: connection_Close_def)





section \<open>What the handler guarantees\<close>

text \<open>C35. When \<^verbatim>\<open>Serve\<close> returns after streaming, the connection is closed and stays
  as it is whatever the bus still calls on it, so nothing is written to the response after the handler has returned; the
  transport error that ended the stream, if any, is the result; the client's subscriptions and replay history
  survive; and the generation of this connection, if it is still the registered one, is inactive with no event pending, while a
  replacement registered meanwhile is not touched.\<close>

theorem serve_returns_quiet:
  assumes inv: "bus_inv h b" and self: "\<not> isNil self" and fin: "Serve_finish henv env cid self c1 b = (e, c2, b')"
  shows "hc_closed c2 \<and> (\<forall>hist. conn_after henv self hist c2 = c2) \<and>
    hc_log c2 = hc_log (conn_after henv self (log b) c1) \<and>
    e = hc_err (conn_after henv self (log b) c1) \<and>
    b_clients b' = b_clients b \<and> b_registry b' = b_registry b \<and> b_replayStore b' = b_replayStore b \<and>
    (\<forall>c. b_clients b cid = Some c \<longrightarrow>
       (if sameConnection (connection (heap b c)) self
        then \<not> client_isActive c b' \<and> connectionClosed (heap b' c) \<and> no_pending c b' else b' = b))"
proof -
  let ?c = "conn_after henv self (log b) c1"
  have c2: "c2 = snd (connection_Close ?c)" "e = hc_err ?c"
    and b': "b' = snd (Bus_Disconnect (http_bus_env henv self c2 env) cid self b)"
    using fin by (auto simp: Serve_finish_def serve_deferred_def Let_def)
  have closed: "hc_closed c2" by (simp add: c2(1) closed_Close_after)
  obtain acted b1 where d: "Bus_Disconnect (http_bus_env henv self c2 env) cid self b = (acted, b1)" by fastforce
  then have "b1 = b'" using b' by simp
  with d have "Bus_Disconnect (http_bus_env henv self c2 env) cid self b = (acted, b')" by simp
  note D = Disconnect_matching [OF inv this]
  have "if sameConnection (connection (heap b c)) self
        then \<not> client_isActive c b' \<and> connectionClosed (heap b' c) \<and> no_pending c b' else b' = b"
    if "b_clients b cid = Some c" for c
    using D(1,2) D(3) [OF _ that] that self by auto
  moreover have "hc_log c2 = hc_log ?c" by (simp add: c2(1) connection_Close_def)
  ultimately show ?thesis using closed closed_after [OF closed] c2(2) D(4,5,6) by simp
qed

definition good_writer :: http_env where
  "good_writer = \<lparr>he_setWriteDeadline = \<lambda>_ _. None, he_write = \<lambda>_ f. (int (length f), None), he_flush = \<lambda>_. None,
     he_requestDone = \<lambda>_. False\<rparr>"

lemma demo_bus3_inv: "bus_inv (hands_of [WIdle, WIdle] SIdle) demo_bus3"
  using reachable_inv [OF demo_reach3] by (simp add: system_inv_def demo_system_def)

theorem serve_returns_quiet_witness:
  "hc_closed (fst (snd (Serve_finish good_writer demo_env ''a'' (demo_conn 1) open_conn demo_bus3))) \<and>
   \<not> client_isActive 0 (snd (snd (Serve_finish good_writer demo_env ''a'' (demo_conn 1) open_conn demo_bus3)))"
proof -
  obtain e c2 b' where f: "Serve_finish good_writer demo_env ''a'' (demo_conn 1) open_conn demo_bus3 = (e, c2, b')" by (metis surj_pair)
  have "\<not> isNil (demo_conn 1)" "b_clients demo_bus3 ''a'' = Some 0" "sameConnection (connection (heap demo_bus3 0)) (demo_conn 1)"
    by (simp_all add: demo_conn_def demo_bus3_eq demo_bus1_eq demo_client_def)
  then have "hc_closed c2" "\<not> client_isActive 0 b'" using serve_returns_quiet [OF demo_bus3_inv _ f] by presburger+
  then show ?thesis unfolding f by simp
qed




end
