(* ===== verification/Client_Lock.thy ===== *)
theory Client_Lock
  imports Prelude
begin

text \<open>
  The per-client locks of \<^verbatim>\<open>bus.go\<close>: \<^verbatim>\<open>clientLock\<close>, the table \<^verbatim>\<open>clientLocks\<close> and
  \<^verbatim>\<open>lockClientContext\<close> with the unlock function it returns. A lock is a channel of capacity one and
  a reference count; it is created by the first user of a client ID and deleted by the last. The steps are
  the critical sections and channel operations of the code, so every interleaving of any number of goroutines is
  a run of \<open>lock_step\<close>. The theorems are mutual exclusion per client, that unlocking never blocks, that a
  waiter is only blocked by a goroutine inside the lock, and that no lock is leaked.
\<close>

section \<open>The table\<close>

record client_lock =
  gate :: bool
  references :: int

record lock_table =
  clientLocks :: "string \<rightharpoonup> nat"
  locks :: "nat \<Rightarrow> client_lock"
  next_lock :: nat

definition new_lock_table :: lock_table where
  "new_lock_table = \<lparr>clientLocks = Map.empty, locks = (\<lambda>_. \<lparr>gate = False, references = 0\<rparr>), next_lock = 0\<rparr>"

definition upd_lock :: "nat \<Rightarrow> (client_lock \<Rightarrow> client_lock) \<Rightarrow> lock_table \<Rightarrow> lock_table" where
  "upd_lock l f t = t\<lparr>locks := (locks t)(l := f (locks t l))\<rparr>"

text \<open>The first critical section: look the lock up, make one if there is none, take a reference.\<close>

definition lock_register :: "string \<Rightarrow> lock_table \<Rightarrow> nat \<times> lock_table" where
  "lock_register clientID t =
     (let (lock, t1) =
        (case clientLocks t clientID of
           Some l \<Rightarrow> (l, t)
         | None \<Rightarrow> (next_lock t,
             t\<lparr>clientLocks := (clientLocks t)(clientID \<mapsto> next_lock t),
               locks := (locks t)(next_lock t := \<lparr>gate = False, references = 0\<rparr>), next_lock := next_lock t + 1\<rparr>))
      in (lock, upd_lock lock (\<lambda>k. k\<lparr>references := references k + 1\<rparr>) t1))"

definition releaseReference :: "string \<Rightarrow> nat \<Rightarrow> lock_table \<Rightarrow> lock_table" where
  "releaseReference clientID lock t =
     (let t1 = upd_lock lock (\<lambda>k. k\<lparr>references := references k - 1\<rparr>) t
      in if references (locks t1 lock) = 0 \<and> clientLocks t1 clientID = Some lock
         then t1\<lparr>clientLocks := (clientLocks t1)(clientID := None)\<rparr> else t1)"

text \<open>Sending to and receiving from the channel; \<^const>\<open>None\<close> is blocking.\<close>

definition gate_send :: "nat \<Rightarrow> lock_table \<Rightarrow> lock_table option" where
  "gate_send lock t = (if gate (locks t lock) then None else Some (upd_lock lock (\<lambda>k. k\<lparr>gate := True\<rparr>) t))"

definition gate_receive :: "nat \<Rightarrow> lock_table \<Rightarrow> lock_table option" where
  "gate_receive lock t = (if gate (locks t lock) then Some (upd_lock lock (\<lambda>k. k\<lparr>gate := False\<rparr>) t) else None)"

section \<open>The goroutines that use it\<close>

text \<open>Where a goroutine is: not using a lock, at the \<^verbatim>\<open>select\<close>, past the gate with a live or an ended
  context, or about to drop its reference.\<close>

datatype lock_user = Outside | Waiting string nat | Holding string nat | Aborting string nat | Leaving string nat

inductive lock_step :: "lock_user \<Rightarrow> lock_table \<Rightarrow> lock_user \<Rightarrow> lock_table \<Rightarrow> bool" where
  enter: "lock_register cid t = (l, t') \<Longrightarrow> lock_step Outside t (Waiting cid l) t'"
| acquire: "gate_send l t = Some t' \<Longrightarrow> lock_step (Waiting cid l) t (Holding cid l) t'"
| acquire_ended: "gate_send l t = Some t' \<Longrightarrow> lock_step (Waiting cid l) t (Aborting cid l) t'"
| ended: "lock_step (Waiting cid l) t (Leaving cid l) t"
| unlock: "gate_receive l t = Some t' \<Longrightarrow> lock_step (Holding cid l) t (Leaving cid l) t'"
| abort: "gate_receive l t = Some t' \<Longrightarrow> lock_step (Aborting cid l) t (Leaving cid l) t'"
| leave: "lock_step (Leaving cid l) t Outside (releaseReference cid l t)"

inductive_cases lock_stepE: "lock_step u t u' t'"

inductive lock_reachable :: "lock_user list \<Rightarrow> lock_table \<Rightarrow> bool" where
  start: "lock_reachable (replicate n Outside) new_lock_table"
| run: "lock_reachable us t \<Longrightarrow> i < length us \<Longrightarrow> lock_step (us ! i) t u t' \<Longrightarrow> lock_reachable (us[i := u]) t'"

section \<open>The invariant\<close>

fun uses :: "nat \<Rightarrow> lock_user \<Rightarrow> bool" where
  "uses l Outside = False"
| "uses l (Waiting c k) = (k = l)"
| "uses l (Holding c k) = (k = l)"
| "uses l (Aborting c k) = (k = l)"
| "uses l (Leaving c k) = (k = l)"

fun inside :: "nat \<Rightarrow> lock_user \<Rightarrow> bool" where
  "inside l (Holding c k) = (k = l)"
| "inside l (Aborting c k) = (k = l)"
| "inside l u = False"

fun filed :: "lock_table \<Rightarrow> lock_user \<Rightarrow> bool" where
  "filed t Outside = True"
| "filed t (Waiting c k) = (clientLocks t c = Some k)"
| "filed t (Holding c k) = (clientLocks t c = Some k)"
| "filed t (Aborting c k) = (clientLocks t c = Some k)"
| "filed t (Leaving c k) = (clientLocks t c = Some k)"

definition users :: "nat \<Rightarrow> lock_user list \<Rightarrow> nat" where
  "users l us = length (filter (uses l) us)"

definition insiders :: "nat \<Rightarrow> lock_user list \<Rightarrow> nat" where
  "insiders l us = length (filter (inside l) us)"

definition table_inv :: "lock_table \<Rightarrow> bool" where
  "table_inv t \<longleftrightarrow>
     (\<forall>c l. clientLocks t c = Some l \<longrightarrow> l < next_lock t \<and> 0 < references (locks t l)) \<and>
     (\<forall>c c' l. clientLocks t c = Some l \<longrightarrow> clientLocks t c' = Some l \<longrightarrow> c = c')"

definition lock_inv :: "lock_user list \<Rightarrow> lock_table \<Rightarrow> bool" where
  "lock_inv us t \<longleftrightarrow> table_inv t \<and> (\<forall>u \<in> set us. filed t u) \<and>
     (\<forall>l < next_lock t. references (locks t l) = int (users l us)) \<and>
     (\<forall>l < next_lock t. insiders l us = (if gate (locks t l) then 1 else 0))"

lemma filter_update:
  "i < length xs \<Longrightarrow>
   length (filter P (xs[i := y])) + (if P (xs ! i) then 1 else 0) = length (filter P xs) + (if P y then 1 else 0)"
proof (induction xs arbitrary: i)
  case (Cons x xs)
  then show ?case by (cases i) auto
qed simp

lemma users_update: "i < length us \<Longrightarrow> int (users l (us[i := u])) = int (users l us) + of_bool (uses l u) - of_bool (uses l (us ! i))"
  using filter_update [of i us "uses l" u] by (auto simp: users_def split: if_splits)

lemma insiders_update:
  "i < length us \<Longrightarrow> insiders l (us[i := u]) + of_bool (inside l (us ! i)) = insiders l us + of_bool (inside l u)"
  using filter_update [of i us "inside l" u] by (auto simp: insiders_def split: if_splits)

lemma filed_uses: "filed t u \<Longrightarrow> uses l u \<Longrightarrow> \<exists>c. clientLocks t c = Some l"
  by (cases u) auto

lemma insideE: "inside l u \<Longrightarrow> \<exists>c. u = Holding c l \<or> u = Aborting c l"
  by (cases u) auto

lemma users_pos: "u \<in> set us \<Longrightarrow> uses l u \<Longrightarrow> 0 < users l us"
  by (auto simp: users_def length_greater_0_conv filter_empty_conv)

text \<open>A step that changes the gate of one lock only.\<close>

lemma gate_step_inv:
  assumes inv: "lock_inv us t" and i: "i < length us"
    and same: "\<And>k. uses k u = uses k (us ! i)" and filed: "filed t u"
    and gate: "insiders l (us[i := u]) = (if g then 1 else 0)" and other: "\<And>k. k \<noteq> l \<Longrightarrow> inside k u = inside k (us ! i)"
  shows "lock_inv (us[i := u]) (upd_lock l (\<lambda>k. k\<lparr>gate := g\<rparr>) t)"
proof -
  let ?t = "upd_lock l (\<lambda>k. k\<lparr>gate := g\<rparr>) t"
  have simps: "clientLocks ?t = clientLocks t" "next_lock ?t = next_lock t" "references (locks ?t k) = references (locks t k)"
    "gate (locks ?t k) = (if k = l then g else gate (locks t k))" for k
    by (auto simp: upd_lock_def)
  have eq_filed: "filed ?t v = filed t v" for v by (cases v) (simp_all add: simps)
  have "\<forall>v \<in> set (us[i := u]). filed ?t v"
    using inv filed eq_filed set_update_subset_insert [of us i u] by (auto simp: lock_inv_def)
  moreover have "users k (us[i := u]) = users k us" for k using users_update [OF i, of k u] same [of k] by simp
  moreover have "insiders k (us[i := u]) = insiders k us" if "k \<noteq> l" for k
    using insiders_update [OF i, of k u] other [OF that] by simp
  moreover have "table_inv (upd_lock l (\<lambda>k. k\<lparr>gate := g\<rparr>) t)"
    using inv unfolding lock_inv_def table_inv_def simps by blast
  ultimately show ?thesis using inv gate by (auto simp: lock_inv_def simps)
qed

lemma lock_inv_share:
  assumes inv: "lock_inv us t" and i: "i < length us" and out: "us ! i = Outside" and reg: "lock_register cid t = (l, t')"
    and Some: "clientLocks t cid = Some k"
  shows "lock_inv (us[i := Waiting cid l]) t'"
proof -
  have t': "l = k" "t' = upd_lock k (\<lambda>k. k\<lparr>references := references k + 1\<rparr>) t"
    using reg Some by (auto simp: lock_register_def Let_def)
  have simps: "clientLocks t' = clientLocks t" "next_lock t' = next_lock t" "gate (locks t' j) = gate (locks t j)"
    "references (locks t' j) = references (locks t j) + of_bool (j = l)" for j
    by (auto simp: t' upd_lock_def)
  have eq_filed: "filed t' v = filed t v" for v by (cases v) (simp_all add: simps)
  have "\<forall>v \<in> set (us[i := Waiting cid l]). filed t' v"
    using inv eq_filed Some t'(1) set_update_subset_insert [of us i "Waiting cid l"] by (fastforce simp: lock_inv_def)
  moreover have "int (users j (us[i := Waiting cid l])) = int (users j us) + of_bool (l = j)" for j
    using users_update [OF i, of j] out by simp
  moreover have "insiders j (us[i := Waiting cid l]) = insiders j us" for j using insiders_update [OF i, of j "Waiting cid l"] out by simp
  moreover have "table_inv t'"
  proof -
    have "0 < references (locks t j) \<Longrightarrow> 0 < references (locks t' j)" for j by (cases "j = l") (simp_all add: simps)
    then show ?thesis using inv unfolding lock_inv_def table_inv_def simps(1,2) by blast
  qed
  ultimately show ?thesis using inv by (auto simp: lock_inv_def simps)
qed

lemma lock_inv_create:
  assumes inv: "lock_inv us t" and i: "i < length us" and out: "us ! i = Outside" and reg: "lock_register cid t = (l, t')"
    and None: "clientLocks t cid = None"
  shows "lock_inv (us[i := Waiting cid l]) t'"
proof -
  have l: "l = next_lock t" using reg None by (auto simp: lock_register_def Let_def)
  have t': "clientLocks t' = (clientLocks t)(cid \<mapsto> l)" "next_lock t' = Suc l"
      "locks t' = (locks t)(l := \<lparr>gate = False, references = 1\<rparr>)"
    using reg None by (auto simp: lock_register_def Let_def upd_lock_def)
  have fresh: "\<not> uses l v" if "v \<in> set us" for v
    using inv that filed_uses [of t v l] by (fastforce simp: lock_inv_def table_inv_def l)
  have zero: "users l us = 0" "insiders l us = 0"
  proof -
    show "users l us = 0" using fresh by (auto simp: users_def)
    have "inside l v \<Longrightarrow> uses l v" for v by (cases v) auto
    then have "\<not> inside l v" if "v \<in> set us" for v using fresh that by blast
    then show "insiders l us = 0" by (simp add: insiders_def filter_empty_conv)
  qed
  have "filed t' v" if "filed t v" for v using that None by (cases v) (auto simp: t')
  then have "\<forall>v \<in> set (us[i := Waiting cid l]). filed t' v"
    using inv set_update_subset_insert [of us i "Waiting cid l"] by (fastforce simp: lock_inv_def t')
  moreover have "int (users j (us[i := Waiting cid l])) = int (users j us) + of_bool (l = j)" for j
    using users_update [OF i, of j] out by simp
  moreover have "insiders j (us[i := Waiting cid l]) = insiders j us" for j using insiders_update [OF i, of j "Waiting cid l"] out by simp
  moreover have "table_inv t'"
  proof -
    have t: "\<forall>c k. clientLocks t c = Some k \<longrightarrow> k < l \<and> 0 < references (locks t k)"
        "\<forall>c c' k. clientLocks t c = Some k \<longrightarrow> clientLocks t c' = Some k \<longrightarrow> c = c'"
      using inv unfolding lock_inv_def table_inv_def l by blast+
    have "k < Suc l \<and> 0 < references (locks t' k)" if "clientLocks t' c = Some k" for c k
      using that t(1) by (auto simp: t' less_Suc_eq split: if_splits)
    moreover have "c = c'" if "clientLocks t' c = Some k" "clientLocks t' c' = Some k" for c c' k
      using that t by (auto simp: t' split: if_splits)
    ultimately show ?thesis unfolding table_inv_def t'(2) by blast
  qed
  ultimately show ?thesis using inv zero by (auto simp: lock_inv_def t' less_Suc_eq l)
qed

lemma lock_inv_enter:
  assumes inv: "lock_inv us t" and i: "i < length us" and out: "us ! i = Outside" and reg: "lock_register cid t = (l, t')"
  shows "lock_inv (us[i := Waiting cid l]) t'"
  using lock_inv_share [OF assms] lock_inv_create [OF assms] by (cases "clientLocks t cid") simp_all

lemma lock_inv_leave:
  assumes inv: "lock_inv us t" and i: "i < length us" and at: "us ! i = Leaving cid l"
  shows "lock_inv (us[i := Outside]) (releaseReference cid l t)"
proof -
  let ?t = "releaseReference cid l t" and ?us = "us[i := Outside]"
  have mem: "us ! i \<in> set us" using i by simp
  have cl: "clientLocks t cid = Some l" using inv mem at by (fastforce simp: lock_inv_def)
  have l: "l < next_lock t" using inv cl by (auto simp: lock_inv_def table_inv_def)
  have us_l: "int (users j ?us) = int (users j us) - of_bool (j = l)" for j using users_update [OF i, of j Outside] at by auto
  have simps: "next_lock ?t = next_lock t" "gate (locks ?t j) = gate (locks t j)"
    "references (locks ?t j) = references (locks t j) - of_bool (j = l)"
    "clientLocks ?t = (if references (locks t l) = 1 then (clientLocks t)(cid := None) else clientLocks t)" for j
    using cl by (auto simp: releaseReference_def upd_lock_def Let_def)
  have refs: "references (locks t l) = int (users l us)" using inv l by (simp add: lock_inv_def)
  have others: "filed ?t v" if v: "v \<in> set ?us" for v
  proof (cases "references (locks t l) = 1 \<and> v \<noteq> Outside")
    case True
    then have "users l ?us = 0" using us_l [of l] refs by simp
    then have "\<not> uses l v" using users_pos [OF v, of l] by auto
    moreover have "filed t v" using inv v True set_update_subset_insert [of us i Outside] by (auto simp: lock_inv_def)
    ultimately show ?thesis using cl by (cases v) (auto simp: simps)
  next
    case False
    have "v = Outside \<or> filed t v" using inv v set_update_subset_insert [of us i Outside] by (auto simp: lock_inv_def)
    then show ?thesis using False by (cases v) (auto simp: simps)
  qed
  have table: "table_inv t" using inv by (simp add: lock_inv_def)
  then have "0 < references (locks t l)" using cl by (auto simp: table_inv_def)
  then have "table_inv ?t" using table cl by (fastforce simp: table_inv_def simps split: if_splits)
  moreover have "insiders j ?us = insiders j us" for j using insiders_update [OF i, of j Outside] at by simp
  ultimately show ?thesis using inv others us_l by (auto simp: lock_inv_def simps)
qed

text \<open>Going through the gate, and back.\<close>

lemma lock_inv_acquire:
  assumes inv: "lock_inv us t" and i: "i < length us" and at: "us ! i = Waiting cid l"
    and send: "gate_send l t = Some t'" and u: "u = Holding cid l \<or> u = Aborting cid l"
  shows "lock_inv (us[i := u]) t'"
proof -
  have t': "t' = upd_lock l (\<lambda>k. k\<lparr>gate := True\<rparr>) t" "\<not> gate (locks t l)"
    using send by (auto simp: gate_send_def split: if_splits)
  have "filed t (us ! i)" using inv i by (simp add: lock_inv_def)
  then have filed: "clientLocks t cid = Some l" by (simp add: at)
  then have l: "l < next_lock t" using inv by (auto simp: lock_inv_def table_inv_def)
  then have "insiders l (us[i := u]) = 1"
    using insiders_update [OF i, of l u] inv t'(2) at u by (auto simp: lock_inv_def)
  then show ?thesis unfolding t'(1) using at u filed by (intro gate_step_inv [OF inv i]) auto
qed

lemma inside_gate:
  assumes inv: "lock_inv us t" and i: "i < length us" and at: "us ! i = Holding cid l \<or> us ! i = Aborting cid l"
  shows "clientLocks t cid = Some l" and "insiders l us = 1" and "gate (locks t l)"
proof -
  have "filed t (us ! i)" using inv i by (simp add: lock_inv_def)
  then show filed: "clientLocks t cid = Some l" using at by auto
  then have "l < next_lock t" using inv by (auto simp: lock_inv_def table_inv_def)
  then have ins: "insiders l us = (if gate (locks t l) then 1 else 0)" using inv by (simp add: lock_inv_def)
  have "us ! i \<in> set (filter (inside l) us)" using i at by auto
  then have "insiders l us \<noteq> 0" by (auto simp: insiders_def filter_empty_conv)
  then show "insiders l us = 1" "gate (locks t l)" using ins by (auto split: if_splits)
qed

lemma lock_inv_receive:
  assumes inv: "lock_inv us t" and i: "i < length us" and at: "us ! i = Holding cid l \<or> us ! i = Aborting cid l"
    and receive: "gate_receive l t = Some t'"
  shows "lock_inv (us[i := Leaving cid l]) t'"
proof -
  have t': "t' = upd_lock l (\<lambda>k. k\<lparr>gate := False\<rparr>) t" using receive by (auto simp: gate_receive_def split: if_splits)
  have "insiders l (us[i := Leaving cid l]) = 0"
    using insiders_update [OF i, of l "Leaving cid l"] inside_gate(2) [OF inv i at] at by auto
  then show ?thesis unfolding t' using at inside_gate(1) [OF inv i at] by (intro gate_step_inv [OF inv i]) auto
qed

lemma lock_inv_ended:
  assumes inv: "lock_inv us t" and i: "i < length us" and at: "us ! i = Waiting cid l"
  shows "lock_inv (us[i := Leaving cid l]) t"
proof -
  have "filed t (us ! i)" using inv i by (simp add: lock_inv_def)
  then have "\<forall>v \<in> set (us[i := Leaving cid l]). filed t v"
    using inv at set_update_subset_insert [of us i "Leaving cid l"] by (fastforce simp: lock_inv_def)
  moreover have "users k (us[i := Leaving cid l]) = users k us" "insiders k (us[i := Leaving cid l]) = insiders k us" for k
    using users_update [OF i, of k "Leaving cid l"] insiders_update [OF i, of k "Leaving cid l"] at by simp_all
  ultimately show ?thesis using inv by (simp add: lock_inv_def)
qed

lemma lock_step_inv:
  assumes inv: "lock_inv us t" and i: "i < length us" and st: "lock_step (us ! i) t u t'"
  shows "lock_inv (us[i := u]) t'"
  using st
  by (elim lock_stepE)
    (simp_all add: lock_inv_enter [OF inv i] lock_inv_leave [OF inv i] lock_inv_acquire [OF inv i]
      lock_inv_receive [OF inv i] lock_inv_ended [OF inv i])

lemma lock_reachable_inv: "lock_reachable us t \<Longrightarrow> lock_inv us t"
proof (induction rule: lock_reachable.induct)
  case (start n)
  then show ?case by (auto simp: lock_inv_def table_inv_def new_lock_table_def)
qed (rule lock_step_inv)

lemma two_inside:
  assumes "i < length us" "j < length us" "i \<noteq> j" "inside l (us ! i)" "inside l (us ! j)"
  shows "2 \<le> insiders l us"
proof -
  have "{i, j} \<subseteq> {k. k < length us \<and> inside l (us ! k)}" using assms by auto
  then have "card {i, j} \<le> card {k. k < length us \<and> inside l (us ! k)}" by (intro card_mono) auto
  then show ?thesis using assms(3) by (simp add: insiders_def length_filter_conv_card)
qed

fun names :: "string \<Rightarrow> lock_user \<Rightarrow> bool" where
  "names cid Outside = False"
| "names cid (Waiting c k) = (c = cid)"
| "names cid (Holding c k) = (c = cid)"
| "names cid (Aborting c k) = (c = cid)"
| "names cid (Leaving c k) = (c = cid)"

text \<open>C39. The client locks, under every interleaving of any number of goroutines with contexts that may end at any moment:
  no two goroutines hold the lock of the same client; the holder's unlock never blocks; a goroutine is blocked at the gate
  only while another one is past it; and the table has an entry for a client only while some goroutine uses it, so locks are not
  leaked.\<close>

theorem client_locks_exclusive:
  assumes reach: "lock_reachable us t"
  shows "(\<forall>i < length us. \<forall>j < length us. us ! i = Holding cid l \<and> us ! j = Holding cid l' \<longrightarrow> i = j) \<and>
    (\<forall>i < length us. us ! i = Holding cid l \<longrightarrow> gate_receive l t \<noteq> None) \<and>
    (\<forall>i < length us. us ! i = Waiting cid l \<and> gate_send l t = None \<longrightarrow>
       (\<exists>j < length us. us ! j = Holding cid l \<or> us ! j = Aborting cid l)) \<and>
    ((\<forall>u \<in> set us. \<not> names cid u) \<longrightarrow> clientLocks t cid = None)"
proof (intro conjI allI impI)
  note inv = lock_reachable_inv [OF reach]
  show "i = j" if ij: "i < length us" "j < length us" and hold: "us ! i = Holding cid l \<and> us ! j = Holding cid l'" for i j
  proof (rule ccontr)
    assume "i \<noteq> j"
    moreover have "l' = l" using inside_gate(1) [OF inv ij(1)] inside_gate(1) [OF inv ij(2)] hold by auto
    ultimately show False using two_inside [OF ij, of l] inside_gate(2) [OF inv ij(1)] hold by simp
  qed
  show "gate_receive l t \<noteq> None" if "i < length us" "us ! i = Holding cid l" for i
    using inside_gate(3) [OF inv that(1)] that by (simp add: gate_receive_def)
  show "\<exists>j < length us. us ! j = Holding cid l \<or> us ! j = Aborting cid l"
    if i: "i < length us" and wait: "us ! i = Waiting cid l \<and> gate_send l t = None" for i
  proof -
    have at: "us ! i = Waiting cid l" and gate: "gate (locks t l)" using wait by (auto simp: gate_send_def split: if_splits)
    have "filed t (us ! i)" using inv i by (simp add: lock_inv_def)
    then have filed: "clientLocks t cid = Some l" by (simp add: at)
    then have "l < next_lock t" using inv by (auto simp: lock_inv_def table_inv_def)
    then have "insiders l us \<noteq> 0" using inv gate by (simp add: lock_inv_def)
    then obtain u where u: "u \<in> set us" "inside l u" by (auto simp: insiders_def filter_empty_conv)
    then obtain c where c: "u = Holding c l \<or> u = Aborting c l" using insideE by blast
    have "filed t u" using inv u(1) by (simp add: lock_inv_def)
    then have "clientLocks t c = Some l" using c by auto
    then have "c = cid" using inv filed by (auto simp: lock_inv_def table_inv_def)
    then show ?thesis using c u(1) by (metis in_set_conv_nth)
  qed
  show "clientLocks t cid = None" if none: "\<forall>u \<in> set us. \<not> names cid u"
  proof (rule ccontr)
    assume "clientLocks t cid \<noteq> None"
    then obtain k where k: "clientLocks t cid = Some k" by blast
    have "table_inv t" using inv by (simp add: lock_inv_def)
    then have "0 < references (locks t k)" "k < next_lock t" using k by (auto simp: table_inv_def)
    then have "0 < users k us" using inv by (simp add: lock_inv_def)
    then obtain u where u: "u \<in> set us" "uses k u" by (auto simp: users_def filter_empty_conv)
    have "filed t u" using inv u(1) by (simp add: lock_inv_def)
    then obtain c where "names c u" "clientLocks t c = Some k" using u(2) by (cases u) auto
    moreover have "c = cid" using inv k calculation(2) by (auto simp: lock_inv_def table_inv_def)
    ultimately show False using none u(1) by blast
  qed
qed

text \<open>Two goroutines on one client: the first holds the lock, the second is blocked by it.\<close>

definition demo_locks :: lock_table where
  "demo_locks = \<lparr>clientLocks = [''a'' \<mapsto> 0], locks = (\<lambda>_. \<lparr>gate = False, references = 0\<rparr>)(0 := \<lparr>gate = True, references = 2\<rparr>),
     next_lock = 1\<rparr>"

lemma demo_locks_reachable: "lock_reachable [Holding ''a'' 0, Waiting ''a'' 0] demo_locks"
proof -
  define t1 where "t1 = snd (lock_register ''a'' new_lock_table)"
  define t2 where "t2 = snd (lock_register ''a'' t1)"
  have 1: "lock_register ''a'' new_lock_table = (0, t1)" "lock_register ''a'' t1 = (0, t2)"
    by (simp_all add: t1_def t2_def lock_register_def new_lock_table_def upd_lock_def)
  have g: "gate_send 0 t2 = Some demo_locks"
    by (auto simp: t1_def t2_def lock_register_def new_lock_table_def upd_lock_def gate_send_def demo_locks_def fun_eq_iff)
  have "lock_reachable [Outside, Outside] new_lock_table" using lock_reachable.start [of 2] by (simp add: numeral_2_eq_2)
  from lock_reachable.run [OF this, of 0] have "lock_reachable [Waiting ''a'' 0, Outside] t1"
    using lock_step.enter [OF 1(1)] by simp
  from lock_reachable.run [OF this, of 1] have "lock_reachable [Waiting ''a'' 0, Waiting ''a'' 0] t2"
    using lock_step.enter [OF 1(2)] by simp
  from lock_reachable.run [OF this, of 0] show ?thesis using lock_step.acquire [OF g] by simp
qed

theorem client_locks_exclusive_witness:
  "gate_receive 0 demo_locks \<noteq> None \<and> clientLocks demo_locks ''b'' = None"
  using client_locks_exclusive [OF demo_locks_reachable, of "''a''" 0 0]
    client_locks_exclusive [OF demo_locks_reachable, of "''b''" 0 0] by auto

end
