(* ===== verification/Queue_Wakeup.thy ===== *)
theory Queue_Wakeup
  imports Send_Queue
begin

text \<open>
  The waiting in \<^verbatim>\<open>queue.go\<close>: the loops of \<^verbatim>\<open>push\<close> and \<^verbatim>\<open>pop\<close> with
  their \<^verbatim>\<open>select\<close> statements, run by any number of goroutines on one queue. A step is one critical section or
  one receive; \<open>eventQueue_push\<close> and \<open>eventQueue_pop\<close> are the critical sections. The theorems say
  when the two one-slot notification channels suffice to wake everyone who can go on, and where they do not.
\<close>

section \<open>Goroutines on a queue\<close>

text \<open>A popper is about to enter the critical section, at the \<^verbatim>\<open>select\<close>, away with an event, or has
  ended; a pusher is idle, about to enter the critical section, or at the \<^verbatim>\<open>select\<close>.\<close>

datatype popper = PopRun | PopSleep | PopBusy | PopExit

datatype pusher = PushIdle | PushRun go_context client_event | PushSleep go_context client_event

inductive pop_step :: "popper \<Rightarrow> event_queue \<Rightarrow> popper \<Rightarrow> event_queue \<Rightarrow> bool" where
  take: "eventQueue_pop q = (Popped s, q') \<Longrightarrow> pop_step PopRun q PopBusy q'"
| sleep: "eventQueue_pop q = (PopWait, q') \<Longrightarrow> pop_step PopRun q PopSleep q'"
| exit: "eventQueue_pop q = (PopClosed, q') \<Longrightarrow> pop_step PopRun q PopExit q'"
| wake: "eq_itemReady q \<Longrightarrow> pop_step PopSleep q PopRun (q\<lparr>eq_itemReady := False\<rparr>)"
| closed: "eq_closed q \<Longrightarrow> pop_step PopSleep q PopExit q"
| again: "pop_step PopBusy q PopRun q"

inductive push_step :: "pusher \<Rightarrow> event_queue \<Rightarrow> world \<Rightarrow> pusher \<Rightarrow> event_queue \<Rightarrow> world \<Rightarrow> bool" where
  pushed: "eventQueue_push ctx e q w = (Pushed e', q', w') \<Longrightarrow> push_step (PushRun ctx e) q w PushIdle q' w'"
| failed: "eventQueue_push ctx e q w = (PushErr x, q', w') \<Longrightarrow> push_step (PushRun ctx e) q w PushIdle q' w'"
| full: "eventQueue_push ctx e q w = (PushWait, q', w') \<Longrightarrow> push_step (PushRun ctx e) q w (PushSleep ctx e) q' w'"
| wake: "eq_spaceReady q \<Longrightarrow> push_step (PushSleep ctx e) q w (PushRun ctx e) (q\<lparr>eq_spaceReady := False\<rparr>) w"
| closed: "eq_closed q \<Longrightarrow> push_step (PushSleep ctx e) q w PushIdle q w"
| ended: "ctx (log w) \<noteq> None \<Longrightarrow> push_step (PushSleep ctx e) q w PushIdle q w"

text \<open>The runs on a queue of a given capacity whose pushes use contexts in \<open>C\<close>. The world may change under the
  queue: the rest of the bus acts between the steps.\<close>

inductive wake_reachable :: "go_context set \<Rightarrow> int \<Rightarrow> popper list \<Rightarrow> pusher list \<Rightarrow> event_queue \<Rightarrow> world \<Rightarrow> bool"
  for C capacity where
  start: "wake_reachable C capacity (replicate n PopRun) (replicate m PushIdle) (newEventQueue capacity) w"
| pop: "wake_reachable C capacity ps us q w \<Longrightarrow> i < length ps \<Longrightarrow> pop_step (ps ! i) q p q' \<Longrightarrow>
    wake_reachable C capacity (ps[i := p]) us q' w"
| push: "wake_reachable C capacity ps us q w \<Longrightarrow> i < length us \<Longrightarrow> push_step (us ! i) q w u q' w' \<Longrightarrow>
    wake_reachable C capacity ps (us[i := u]) q' w'"
| call: "wake_reachable C capacity ps us q w \<Longrightarrow> i < length us \<Longrightarrow> us ! i = PushIdle \<Longrightarrow> ctx \<in> C \<Longrightarrow>
    wake_reachable C capacity ps (us[i := PushRun ctx e]) q w"
| remove: "wake_reachable C capacity ps us q w \<Longrightarrow> eventQueue_remove match q w = (q', w') \<Longrightarrow>
    wake_reachable C capacity ps us q' w'"
| close: "wake_reachable C capacity ps us q w \<Longrightarrow> wake_reachable C capacity ps us (eventQueue_close q) w"
| drain: "wake_reachable C capacity ps us q w \<Longrightarrow> eq_closed q \<Longrightarrow>
    wake_reachable C capacity ps us (snd (eventQueue_drain q)) w"
| elsewhere: "wake_reachable C capacity ps us q w \<Longrightarrow> wake_reachable C capacity ps us q w'"

section \<open>Items wake poppers\<close>

definition items_awake :: "popper list \<Rightarrow> event_queue \<Rightarrow> bool" where
  "items_awake ps q \<longleftrightarrow> eq_closed q \<or> queued q = [] \<or> eq_itemReady q \<or> PopRun \<in> set ps"

fun runs :: "pusher \<Rightarrow> bool" where
  "runs (PushRun ctx e) = True"
| "runs u = False"

fun sleeps :: "pusher \<Rightarrow> bool" where
  "sleeps (PushSleep ctx e) = True"
| "sleeps u = False"

fun user_context :: "go_context set \<Rightarrow> pusher \<Rightarrow> bool" where
  "user_context C PushIdle = True"
| "user_context C (PushRun ctx e) = (ctx \<in> C)"
| "user_context C (PushSleep ctx e) = (ctx \<in> C)"

definition space_awake :: "pusher list \<Rightarrow> event_queue \<Rightarrow> bool" where
  "space_awake us q \<longleftrightarrow> eq_closed q \<or> eventQueue_sizeLocked q = eq_capacity q \<or> eq_spaceReady q \<or>
     (\<exists>u \<in> set us. runs u) \<or> (\<forall>u \<in> set us. \<not> sleeps u)"

lemma update_keeps: "x \<in> set xs \<Longrightarrow> i < length xs \<Longrightarrow> xs ! i \<noteq> x \<Longrightarrow> x \<in> set (xs[i := y])"
  by (metis in_set_conv_nth length_list_update nth_list_update_neq)

lemma update_new: "i < length xs \<Longrightarrow> y \<in> set (xs[i := y])"
  by (rule set_update_memI)

lemma take_signals:
  assumes "queue_ok q" "queued q \<noteq> []"
  shows "eq_spaceReady (eventQueue_take q)" and "queued (eventQueue_take q) \<noteq> [] \<Longrightarrow> eq_itemReady (eventQueue_take q)"
proof -
  show "eq_spaceReady (eventQueue_take q)" by (simp add: eventQueue_take_def Let_def)
  assume "queued (eventQueue_take q) \<noteq> []"
  then have "eventQueue_sizeLocked (eventQueue_take q) > 0"
    using length_queued [OF queue_ok_take(1) [OF assms]] by (metis length_greater_0_conv of_nat_0_less_iff)
  then show "eq_itemReady (eventQueue_take q)" by (simp add: eventQueue_take_def Let_def split: if_splits)
qed

lemma append_signals:
  "eq_itemReady (eventQueue_append e q)"
  "eventQueue_sizeLocked (eventQueue_append e q) < eq_capacity q \<Longrightarrow> eq_spaceReady (eventQueue_append e q)"
  by (auto simp: eventQueue_append_def Let_def split: if_splits)

lemma queued_Nil_iff: "queue_ok q \<Longrightarrow> queued q = [] \<longleftrightarrow> eventQueue_sizeLocked q \<le> 0"
  using length_queued [of q] by (metis length_0_conv of_nat_le_0_iff)

lemma pop_cases:
  assumes "queue_ok q" "eventQueue_pop q = (r, q')"
  obtains (closed) "r = PopClosed" "q' = q" "eq_closed q"
  | (wait) "r = PopWait" "q' = q" "queued q = []"
  | (took) s where "r = Popped s" "q' = eventQueue_take q" "queued q \<noteq> []" "\<not> eq_closed q"
  using assms queued_Nil_iff [OF assms(1)]
  by (auto simp: eventQueue_pop_def split: if_splits)

lemma push_cases_queue:
  assumes "queue_ok q" "eventQueue_push ctx e q w = (r, q', w')"
  obtains (failed) x where "r = PushErr x" "q' = q" "eq_closed q \<or> ctx (log w) \<noteq> None"
  | (wait) "r = PushWait" "q' = q" "eventQueue_sizeLocked q = eq_capacity q"
  | (pushed) e1 where "r = Pushed e1" "q' = eventQueue_append e1 q" "eventQueue_sizeLocked q < eq_capacity q"
proof -
  have "eventQueue_sizeLocked q \<le> eq_capacity q"
    using send_queue.within_bound [OF assms(1)] length_queued [OF assms(1)] by simp
  then show ?thesis using assms(2) that
    by (auto simp: eventQueue_push_def Let_def split: option.splits if_splits prod.splits)
qed

definition live :: "go_context set \<Rightarrow> bool" where
  "live C \<longleftrightarrow> (\<forall>ctx \<in> C. \<forall>h. ctx h = None)"

definition wake_inv :: "go_context set \<Rightarrow> popper list \<Rightarrow> pusher list \<Rightarrow> event_queue \<Rightarrow> bool" where
  "wake_inv C ps us q \<longleftrightarrow>
     queue_ok q \<and> items_awake ps q \<and> (\<forall>u \<in> set us. user_context C u) \<and> (live C \<longrightarrow> space_awake us q)"

lemma pop_step_queue:
  assumes "queue_ok q" "pop_step p q p' q'"
  shows "queue_ok q'" and "space_awake us q \<Longrightarrow> space_awake us q'"
proof -
  have "queue_ok q' \<and> (space_awake us q \<longrightarrow> space_awake us q')"
    using assms(2)
  proof (cases rule: pop_step.cases)
    case (take s)
    then show ?thesis using assms(1) queue_ok_take [OF assms(1)] take_signals [OF assms(1)]
      by (elim pop_cases [OF assms(1)]) (auto simp: space_awake_def)
  next
    case wake
    moreover have "queue_ok (q\<lparr>eq_itemReady := False\<rparr>) = queue_ok q" by (rule queue_ok_cong) simp_all
    ultimately show ?thesis using assms(1) by (simp add: space_awake_def eventQueue_sizeLocked_def)
  qed (use assms(1) in \<open>auto elim: pop_cases [OF assms(1)]\<close>)
  then show "queue_ok q'" "space_awake us q \<Longrightarrow> space_awake us q'" by blast+
qed

lemma pop_step_items:
  assumes ok: "queue_ok q" and items: "items_awake ps q" and i: "i < length ps" and st: "pop_step (ps ! i) q p q'"
  shows "items_awake (ps[i := p]) q'"
  using st
proof (cases rule: pop_step.cases)
  case (take s)
  then have q': "q' = eventQueue_take q" "queued q \<noteq> []" by (auto elim: pop_cases [OF ok])
  then show ?thesis using take_signals [OF ok] by (auto simp: items_awake_def)
next
  case sleep
  then show ?thesis by (auto elim: pop_cases [OF ok] simp: items_awake_def)
next
  case exit
  then show ?thesis by (auto elim: pop_cases [OF ok] simp: items_awake_def)
next
  case closed
  then show ?thesis by (simp add: items_awake_def)
qed (use update_new [OF i] in \<open>simp_all add: items_awake_def\<close>)

lemma push_step_queue:
  assumes ok: "queue_ok q" and st: "push_step u q w u' q' w'"
  shows "queue_ok q'" and "items_awake ps q \<Longrightarrow> items_awake ps q'" and "user_context C u \<Longrightarrow> user_context C u'"
proof -
  have space: "queue_ok (q\<lparr>eq_spaceReady := False\<rparr>) = queue_ok q" "queued (q\<lparr>eq_spaceReady := False\<rparr>) = queued q"
    by (rule queue_ok_cong queued_cong; simp)+
  have "queue_ok q' \<and> (items_awake ps q \<longrightarrow> items_awake ps q') \<and> (user_context C u \<longrightarrow> user_context C u')"
    using st
  proof (cases rule: push_step.cases)
    case (pushed ctx e e')
    then obtain e1 where "q' = eventQueue_append e1 q" "eventQueue_sizeLocked q < eq_capacity q"
      by (auto elim: push_cases_queue [OF ok])
    then show ?thesis using queue_ok_append [OF ok] append_signals pushed by (simp add: items_awake_def)
  qed (use ok space in \<open>auto elim: push_cases_queue [OF ok] simp: items_awake_def\<close>)
  then show "queue_ok q'" "items_awake ps q \<Longrightarrow> items_awake ps q'" "user_context C u \<Longrightarrow> user_context C u'" by blast+
qed

lemma push_step_space:
  assumes ok: "queue_ok q" and space: "space_awake us q" and i: "i < length us" and st: "push_step (us ! i) q w u q' w'"
    and ctx: "user_context C (us ! i)" "live C"
  shows "space_awake (us[i := u]) q'"
  using st
proof (cases rule: push_step.cases)
  case (pushed ctx e e')
  then obtain e1 where q': "q' = eventQueue_append e1 q" "eventQueue_sizeLocked q < eq_capacity q"
    by (auto elim: push_cases_queue [OF ok])
  then have "eventQueue_sizeLocked q' \<le> eq_capacity q'"
    using send_queue.within_bound [OF queue_ok_append(1) [OF ok]] length_queued [OF queue_ok_append(1) [OF ok]] by simp
  then show ?thesis using append_signals(2) [of e1 q] by (auto simp: space_awake_def q')
next
  case (failed ctx e x)
  then have "ctx (log w) = None" using ctx by (simp add: live_def)
  then have "eq_closed q'" using failed(3) by (auto elim: push_cases_queue [OF ok])
  then show ?thesis by (simp add: space_awake_def)
next
  case (full ctx e)
  then show ?thesis by (auto elim: push_cases_queue [OF ok] simp: space_awake_def)
next
  case (wake ctx e)
  then have "\<exists>v \<in> set (us[i := u]). runs v" using update_new [OF i, of u] by (intro bexI [of _ u]) simp_all
  then show ?thesis by (simp add: space_awake_def)
next
  case (closed ctx e)
  then show ?thesis by (simp add: space_awake_def)
next
  case (ended ctx e)
  then have "ctx (log w) = None" using ctx by (simp add: live_def)
  then show ?thesis using ended by simp
qed

lemma wake_reachable_inv: "wake_reachable C capacity ps us q w \<Longrightarrow> 0 \<le> capacity \<Longrightarrow> wake_inv C ps us q"
proof (induction rule: wake_reachable.induct)
  case (start n m w)
  then show ?case by (simp add: wake_inv_def items_awake_def space_awake_def)
next
  case (pop ps us q w i p q')
  then have inv: "wake_inv C ps us q" by simp
  then show ?case
    using pop_step_queue [OF _ pop.hyps(3)] pop_step_items [OF _ _ pop.hyps(2,3)] by (simp add: wake_inv_def)
next
  case (push ps us q w i u q' w')
  then have inv: "wake_inv C ps us q" and mem: "us ! i \<in> set us" by simp_all
  then have "user_context C v" if "v \<in> set (us[i := u])" for v
    using that set_update_subset_insert [of us i u] push_step_queue(3) [OF _ push.hyps(3)] by (fastforce simp: wake_inv_def)
  moreover have "space_awake (us[i := u]) q'" if "live C"
    using inv mem that push_step_space [OF _ _ push.hyps(2,3) _ that] by (simp add: wake_inv_def)
  ultimately show ?case using inv push_step_queue(1,2) [OF _ push.hyps(3)] by (simp add: wake_inv_def)
next
  case (call ps us q w i ctx e)
  then have "user_context C v" if "v \<in> set (us[i := PushRun ctx e])" for v
    using that set_update_subset_insert [of us i "PushRun ctx e"] by (fastforce simp: wake_inv_def)
  moreover have "space_awake (us[i := PushRun ctx e]) q" using update_new [OF call.hyps(2), of "PushRun ctx e"] by (force simp: space_awake_def)
  ultimately show ?case using call by (simp add: wake_inv_def)
next
  case (remove ps us q w match q' w')
  then have q': "q' = eventQueue_filter match q" by (simp add: eventQueue_remove_def)
  then show ?case using remove queue_ok_filter [of q match]
    by (auto simp: wake_inv_def items_awake_def space_awake_def)
next
  case (close ps us q w)
  then show ?case by (simp add: wake_inv_def items_awake_def space_awake_def)
next
  case (drain ps us q w)
  moreover have "eq_closed (snd (eventQueue_drain q)) = eq_closed q" by (simp add: eventQueue_drain_def)
  ultimately show ?case using eventQueue_drain_spec(3) [of q] by (simp add: wake_inv_def items_awake_def space_awake_def)
qed

text \<open>C40. No wake-up is lost on the way to the workers, and none on the way to publishers whose contexts do not end. In
  every run of any number of goroutines on an open queue: while an event is queued, a notification is pending or some worker is
  about to look; and when no context can end, while there is room and a publisher waits for it, a notification is pending or some
  publisher is about to look.\<close>

theorem no_lost_wakeup:
  assumes "wake_reachable C capacity ps us q w" "0 \<le> capacity" "\<not> eq_closed q"
  shows "(queued q \<noteq> [] \<longrightarrow> eq_itemReady q \<or> PopRun \<in> set ps) \<and>
    ((\<forall>ctx \<in> C. \<forall>h. ctx h = None) \<and> int (length (queued q)) < eq_capacity q \<and> (\<exists>ctx e. PushSleep ctx e \<in> set us) \<longrightarrow>
       eq_spaceReady q \<or> (\<exists>ctx e. PushRun ctx e \<in> set us))"
proof -
  have inv: "wake_inv C ps us q" by (rule wake_reachable_inv [OF assms(1,2)])
  then have "items_awake ps q" and ok: "queue_ok q" by (simp_all add: wake_inv_def)
  moreover have "eq_spaceReady q \<or> (\<exists>ctx e. PushRun ctx e \<in> set us)"
    if "live C" "int (length (queued q)) < eq_capacity q" "PushSleep ctx e \<in> set us" for ctx e
  proof -
    have "space_awake us q" using inv that(1) by (simp add: wake_inv_def)
    moreover have "\<exists>u \<in> set us. sleeps u" using that(3) by force
    moreover have "runs u \<Longrightarrow> \<exists>ctx e. u = PushRun ctx e" for u by (cases u) auto
    ultimately show ?thesis using assms(3) that(2) length_queued [OF ok] by (auto simp: space_awake_def)
  qed
  ultimately show ?thesis using assms(3) unfolding live_def items_awake_def by blast
qed

section \<open>A concrete run\<close>

text \<open>Capacity one: a first push fills the queue, two more publishers wait, a worker takes the event.\<close>

definition demo_taken :: event_queue where
  "demo_taken = (newEventQueue 1)\<lparr>eq_itemReady := True, eq_spaceReady := True\<rparr>"

lemma demo_waiting_run:
  assumes C: "ctx \<in> C" "Background \<in> C" and ctx: "ctx [] = None"
  shows "\<exists>w. log w = [] \<and>
    wake_reachable C 1 [PopBusy] [PushIdle, PushSleep ctx demo_pending, PushSleep Background demo_pending] demo_taken w"
proof -
  obtain e1 q1 w1 where p: "eventQueue_push Background demo_pending (newEventQueue 1) demo_world = (Pushed e1, q1, w1)"
    and q1: "q1 = (newEventQueue 1)\<lparr>eq_items := [Some e1], eq_itemReady := True\<rparr>" "log w1 = []"
    by (auto simp: eventQueue_push_def Background_def newEventQueue_def eventQueue_sizeLocked_def eventQueue_append_def
        case_prod_unfold Let_def signal_itemReady_def upd_client_def demo_world_def)
  have wait: "eventQueue_push c demo_pending q1 w1 = (PushWait, q1, w1)" if "c [] = None" for c
    using that by (simp add: eventQueue_push_def q1 newEventQueue_def eventQueue_sizeLocked_def)
  have take: "eventQueue_pop q1 = (Popped (Some e1), demo_taken)"
    by (simp add: eventQueue_pop_def q1 newEventQueue_def eventQueue_sizeLocked_def eventQueue_take_def Let_def
        eventQueue_compactLocked_def signal_spaceReady_def demo_taken_def)
  have "wake_reachable C 1 [PopRun] [PushIdle, PushIdle, PushIdle] (newEventQueue 1) demo_world"
    using wake_reachable.start [of C 1 1 3 demo_world] by (simp add: numeral_3_eq_3)
  from wake_reachable.call [OF this, of 0 Background demo_pending] C
  have "wake_reachable C 1 [PopRun] [PushRun Background demo_pending, PushIdle, PushIdle] (newEventQueue 1) demo_world" by simp
  from wake_reachable.push [OF this, of 0] have "wake_reachable C 1 [PopRun] [PushIdle, PushIdle, PushIdle] q1 w1"
    using push_step.pushed [OF p] by simp
  from wake_reachable.call [OF this, of 1 ctx demo_pending] C
  have "wake_reachable C 1 [PopRun] [PushIdle, PushRun ctx demo_pending, PushIdle] q1 w1" by simp
  from wake_reachable.push [OF this, of 1] have "wake_reachable C 1 [PopRun] [PushIdle, PushSleep ctx demo_pending, PushIdle] q1 w1"
    using push_step.full [OF wait [of ctx]] ctx by simp
  from wake_reachable.call [OF this, of 2 Background demo_pending] C
  have "wake_reachable C 1 [PopRun] [PushIdle, PushSleep ctx demo_pending, PushRun Background demo_pending] q1 w1" by simp
  from wake_reachable.push [OF this, of 2]
  have "wake_reachable C 1 [PopRun] [PushIdle, PushSleep ctx demo_pending, PushSleep Background demo_pending] q1 w1"
    using push_step.full [OF wait [of Background]] by (simp add: Background_def)
  from wake_reachable.pop [OF this, of 0] show ?thesis using pop_step.take [OF take] q1(2) by auto
qed

theorem no_lost_wakeup_witness:
  "\<exists>w. wake_reachable {Background} 1 [PopBusy] [PushIdle, PushSleep Background demo_pending, PushSleep Background demo_pending] demo_taken w \<and>
     eq_spaceReady demo_taken"
proof -
  obtain w where w: "wake_reachable {Background} 1 [PopBusy]
      [PushIdle, PushSleep Background demo_pending, PushSleep Background demo_pending] demo_taken w"
    using demo_waiting_run [of Background "{Background}"] by (auto simp: Background_def)
  have "queued demo_taken = []" "\<not> eq_closed demo_taken" "eq_capacity demo_taken = 1"
    by (simp_all add: demo_taken_def newEventQueue_def queued_def)
  then show ?thesis using w no_lost_wakeup [OF w] by (auto simp: Background_def)
qed

definition ending :: go_context where
  "ending h = (if h = [] then None else Some ContextCanceled)"

text \<open>C38. With contexts that end, a notification of \<^verbatim>\<open>push\<close> can be lost: a publisher receives it, goes back to the
  top of the loop, and returns its context's error without passing the notification on. There is a run on a queue of
  capacity one after which the queue is open and empty, no notification is pending, the only worker sleeps, and a publisher
  with a live context still waits for room that is there.\<close>

theorem ended_context_swallows_wakeup:
  "\<exists>w. wake_reachable {Background, ending} 1 [PopSleep] [PushIdle, PushIdle, PushSleep Background demo_pending] (newEventQueue 1) w \<and>
     \<not> eq_closed (newEventQueue 1) \<and> queued (newEventQueue 1) = [] \<and> \<not> eq_spaceReady (newEventQueue 1) \<and> \<not> eq_itemReady (newEventQueue 1)"
proof -
  let ?C = "{Background, ending}" and ?q = "(newEventQueue 1)\<lparr>eq_itemReady := True\<rparr>"
  let ?us = "[PushIdle, PushIdle, PushSleep Background demo_pending]"
  obtain w where "wake_reachable ?C 1 [PopBusy] [PushIdle, PushSleep ending demo_pending, PushSleep Background demo_pending] demo_taken w"
    using demo_waiting_run [of ending ?C] by (auto simp: ending_def)
  from wake_reachable.push [OF this, of 1]
  have "wake_reachable ?C 1 [PopBusy] [PushIdle, PushRun ending demo_pending, PushSleep Background demo_pending] ?q w"
    using push_step.wake [of demo_taken ending demo_pending w] by (simp add: demo_taken_def newEventQueue_def)
  from wake_reachable.elsewhere [OF this, of "w\<lparr>log := [PanicHandlerCall]\<rparr>"]
  have later: "wake_reachable ?C 1 [PopBusy] [PushIdle, PushRun ending demo_pending, PushSleep Background demo_pending] ?q
      (w\<lparr>log := [PanicHandlerCall]\<rparr>)" .
  let ?w = "w\<lparr>log := [PanicHandlerCall]\<rparr>"
  have err: "eventQueue_push ending demo_pending ?q ?w = (PushErr (ContextCanceled), ?q, ?w)"
    by (simp add: eventQueue_push_def ending_def)
  have empty: "eventQueue_pop ?q = (PopWait, ?q)" "eventQueue_pop (newEventQueue 1) = (PopWait, newEventQueue 1)"
    by (simp_all add: eventQueue_pop_def newEventQueue_def eventQueue_sizeLocked_def)
  from wake_reachable.push [OF later, of 1] have "wake_reachable ?C 1 [PopBusy] ?us ?q ?w"
    using push_step.failed [OF err] by simp
  from wake_reachable.pop [OF this, of 0] have "wake_reachable ?C 1 [PopRun] ?us ?q ?w" using pop_step.again by simp
  from wake_reachable.pop [OF this, of 0] have "wake_reachable ?C 1 [PopSleep] ?us ?q ?w" using pop_step.sleep [OF empty(1)] by simp
  from wake_reachable.pop [OF this, of 0] have "wake_reachable ?C 1 [PopRun] ?us (newEventQueue 1) ?w"
    using pop_step.wake [of ?q] by (simp add: newEventQueue_def)
  from wake_reachable.pop [OF this, of 0] have "wake_reachable ?C 1 [PopSleep] ?us (newEventQueue 1) ?w"
    using pop_step.sleep [OF empty(2)] by simp
  then show ?thesis by (auto simp: newEventQueue_def queued_def)
qed

end
