(* ===== verification/Retry_Wakeup.thy ===== *)
theory Retry_Wakeup
  imports Retry_Queue
begin

text \<open>
  The waiting of \<^verbatim>\<open>retryLoop\<close> in \<^verbatim>\<open>bus.go\<close>: the loop looks for a due retry, and otherwise sleeps
  until its timer fires, the retry queue changes or the bus stops. The steps are the critical sections of the retry queue and
  the branches of the \<^verbatim>\<open>select\<close>, with time passing in between; workers schedule and callers remove retries at any
  moment. The theorem is that the loop does not sleep through a due retry.
\<close>

section \<open>The loop and its timer\<close>

text \<open>\<^verbatim>\<open>min(max(time.Until(next), 0), schedulerDelay)\<close>; without a next due time no timer is set.\<close>

definition retryLoop_sleep :: "duration \<Rightarrow> instant \<Rightarrow> instant option \<Rightarrow> duration option" where
  "retryLoop_sleep schedulerDelay now nxt = map_option (\<lambda>t. min (max (t - now) 0) schedulerDelay) nxt"

text \<open>Looking, asleep with the instant its timer fires, pushing an event to the send queue, or ended.\<close>

datatype retry_loop = RLook | RSleep "instant option" | RPush client_event | RExit

inductive retry_step :: "duration \<Rightarrow> instant \<Rightarrow> retry_loop \<Rightarrow> retry_queue \<Rightarrow> retry_loop \<Rightarrow> retry_queue \<Rightarrow> bool"
  for delay now where
  due: "retryQueue_popDue now q = ((Some e, nxt, True), q') \<Longrightarrow> retry_step delay now RLook q (RPush e) q'"
| sleep: "retryQueue_popDue now q = ((None, nxt, True), q') \<Longrightarrow>
    retry_step delay now RLook q (RSleep (map_option (\<lambda>d. now + d) (retryLoop_sleep delay now nxt))) q'"
| closed: "retryQueue_popDue now q = ((x, nxt, False), q') \<Longrightarrow> retry_step delay now RLook q RExit q'"
| pushed: "retry_step delay now (RPush e) q RLook q"
| refused: "retry_step delay now (RPush e) q RExit q"
| changed: "rq_changed q \<Longrightarrow> retry_step delay now (RSleep tm) q RLook (q\<lparr>rq_changed := False\<rparr>)"
| timer: "t \<le> now \<Longrightarrow> retry_step delay now (RSleep (Some t)) q RLook q"
| stopped: "rq_closed q \<Longrightarrow> retry_step delay now (RSleep tm) q RExit q"

inductive retry_reachable :: "duration \<Rightarrow> int \<Rightarrow> instant \<Rightarrow> retry_loop \<Rightarrow> retry_queue \<Rightarrow> bool" for delay capacity where
  start: "retry_reachable delay capacity now RLook (newRetryQueue capacity)"
| loop: "retry_reachable delay capacity now r q \<Longrightarrow> retry_step delay now r q r' q' \<Longrightarrow> retry_reachable delay capacity now r' q'"
| tick: "retry_reachable delay capacity now r q \<Longrightarrow> now \<le> now' \<Longrightarrow> retry_reachable delay capacity now' r q"
| schedule: "retry_reachable delay capacity now r q \<Longrightarrow> retryQueue_schedule e q = (x, q') \<Longrightarrow> retry_reachable delay capacity now r q'"
| remove: "retry_reachable delay capacity now r q \<Longrightarrow> retry_reachable delay capacity now r (retryQueue_remove match q)"
| close: "retry_reachable delay capacity now r q \<Longrightarrow> retry_reachable delay capacity now r (retryQueue_close q)"
| clear: "retry_reachable delay capacity now r q \<Longrightarrow> rq_closed q \<Longrightarrow> retry_reachable delay capacity now r (retryQueue_clear q)"

section \<open>The invariant\<close>

definition in_time :: "instant \<Rightarrow> retry_loop \<Rightarrow> retry_queue \<Rightarrow> bool" where
  "in_time now r q \<longleftrightarrow>
     (\<forall>tm. r = RSleep tm \<longrightarrow> rq_closed q \<or> rq_changed q \<or>
        (\<forall>y \<in> set (rq_items q). \<exists>t. tm = Some t \<and> t \<le> max (ce_retryAfter y) now))"

lemma schedule_cases:
  assumes ok: "retry_queue_ok q" and sched: "retryQueue_schedule e q = (x, q')"
  shows "retry_queue_ok q'" and "rq_closed q' \<or> rq_changed q'" and "rq_closed q' = rq_closed q"
proof -
  have "retry_queue_ok q'"
  proof (cases "rq_closed q")
    case True
    then show ?thesis using assms by (auto simp: retryQueue_schedule_def)
  next
    case open_q: False
    show ?thesis
    proof (cases "int (length (rq_items q)) < rq_capacity q")
      case True
      then show ?thesis using schedule_room(2) [OF ok open_q True sched] by simp
    next
      case False
      then have "int (length (rq_items q)) = rq_capacity q" using ok by (simp add: retry_queue_ok_def)
      then show ?thesis by (rule schedule_full [OF ok open_q _ sched])
    qed
  qed
  moreover have "(rq_closed q' \<or> rq_changed q') \<and> rq_closed q' = rq_closed q"
    using sched by (auto simp: retryQueue_schedule_def Let_def split: if_splits option.splits)
  ultimately show "retry_queue_ok q'" "rq_closed q' \<or> rq_changed q'" "rq_closed q' = rq_closed q" by blast+
qed

lemma popDue_sleep:
  assumes ok: "retry_queue_ok q" and pop: "retryQueue_popDue now q = ((None, nxt, True), q')"
  shows "q' = q" and "y \<in> set (rq_items q) \<Longrightarrow> \<exists>t. nxt = Some t \<and> now < t \<and> t \<le> ce_retryAfter y"
proof -
  have open_q: "\<not> rq_closed q" using pop by (auto simp: retryQueue_popDue_def split: if_splits)
  have later: "\<forall>y \<in> set (rq_items q). now < ce_retryAfter y"
  proof (rule ccontr)
    assume "\<not> ?thesis"
    then obtain y where y: "y \<in> set (rq_items q)" "ce_retryAfter y \<le> now" by (auto simp: not_less)
    show False by (rule popDue_due [OF ok open_q y]) (use pop in simp)
  qed
  note w = popDue_waits [OF ok open_q later]
  show "q' = q" using w pop by simp
  show "\<exists>t. nxt = Some t \<and> now < t \<and> t \<le> ce_retryAfter y" if y: "y \<in> set (rq_items q)"
  proof -
    have "nxt = Some (Min (ce_retryAfter ` set (rq_items q)))" using w pop y by auto
    moreover have "now < Min (ce_retryAfter ` set (rq_items q))" using y later by (subst Min_gr_iff) auto
    moreover have "Min (ce_retryAfter ` set (rq_items q)) \<le> ce_retryAfter y" using y by simp
    ultimately show ?thesis by blast
  qed
qed

lemma popDue_ok: "retry_queue_ok q \<Longrightarrow> retryQueue_popDue now q = (r, q') \<Longrightarrow> retry_queue_ok q'"
proof -
  assume ok: "retry_queue_ok q" and pop: "retryQueue_popDue now q = (r, q')"
  show ?thesis
  proof (cases "\<not> rq_closed q \<and> (\<exists>y \<in> set (rq_items q). ce_retryAfter y \<le> now)")
    case True
    then obtain y where y: "\<not> rq_closed q" "y \<in> set (rq_items q)" "ce_retryAfter y \<le> now" by blast
    show ?thesis by (rule popDue_due [OF ok y]) (use pop in simp)
  next
    case False
    then show ?thesis using ok pop popDue_waits [OF ok, of now] by (cases "rq_closed q") (auto simp: retryQueue_popDue_def not_le)
  qed
qed

lemma retry_step_inv:
  assumes "retry_queue_ok q" "in_time now r q" "retry_step delay now r q r' q'"
  shows "retry_queue_ok q' \<and> in_time now r' q'"
  using assms(3)
proof cases
  case (due e nxt)
  then show ?thesis using popDue_ok [OF assms(1) due(3)] by (simp add: in_time_def)
next
  case (sleep nxt)
  note s = popDue_sleep [OF assms(1) sleep(3)]
  have "\<exists>t. map_option (\<lambda>d. now + d) (retryLoop_sleep delay now nxt) = Some t \<and> t \<le> max (ce_retryAfter y) now"
    if "y \<in> set (rq_items q)" for y
    using s(2) [OF that] by (auto simp: retryLoop_sleep_def)
  then show ?thesis using s(1) assms(1) sleep by (simp add: in_time_def)
next
  case (closed x nxt)
  then show ?thesis using popDue_ok [OF assms(1) closed(3)] by (simp add: in_time_def)
qed (use assms(1) in \<open>simp_all add: in_time_def retry_queue_ok_def\<close>)

lemma retry_reachable_inv:
  "retry_reachable delay capacity now r q \<Longrightarrow> 0 \<le> capacity \<Longrightarrow> retry_queue_ok q \<and> in_time now r q"
proof (induction rule: retry_reachable.induct)
  case (loop now r q r' q')
  then show ?case using retry_step_inv by blast
next
  case (tick now r q now')
  then show ?case unfolding in_time_def by (metis max.coboundedI2 max.mono order_refl order_trans)
next
  case (schedule now r q e x q')
  then show ?case using schedule_cases [of q e x q'] by (auto simp: in_time_def)
next
  case (remove now r q match)
  moreover have "rq_changed (retryQueue_remove match q)" by (simp add: retryQueue_remove_def Let_def)
  ultimately show ?case using retryQueue_remove_spec(1) [of q match] by (simp add: in_time_def)
next
  case (clear now r q)
  then show ?case by (simp add: in_time_def retry_queue_ok_def retryQueue_clear_def heap_from_def)
qed (simp_all add: in_time_def)

text \<open>C28. The retry loop does not sleep through a due retry: in every run, with workers scheduling and callers
  removing retries at any moment, if the loop is asleep on an open queue that holds a retry whose time has come, then
  its timer has already fired or a change notification is pending; and the timer it sets is never later than the earliest due
  time nor longer than the scheduler delay.\<close>

theorem retry_loop_in_time:
  assumes "retry_reachable delay capacity now (RSleep tm) q" "0 \<le> capacity" "\<not> rq_closed q"
  shows "((\<exists>y \<in> set (rq_items q). ce_retryAfter y \<le> now) \<longrightarrow> rq_changed q \<or> (\<exists>t. tm = Some t \<and> t \<le> now)) \<and>
    (rq_items q \<noteq> [] \<and> \<not> rq_changed q \<longrightarrow> (\<exists>t. tm = Some t \<and> t \<le> max (Min (ce_retryAfter ` set (rq_items q))) now)) \<and>
    (\<forall>nxt d. retryLoop_sleep delay now nxt = Some d \<longrightarrow> d \<le> delay)"
proof -
  have inv: "rq_changed q \<or> (\<forall>y \<in> set (rq_items q). \<exists>t. tm = Some t \<and> t \<le> max (ce_retryAfter y) now)"
    using retry_reachable_inv [OF assms(1,2)] assms(3) by (simp add: in_time_def)
  have "\<exists>y \<in> set (rq_items q). ce_retryAfter y = Min (ce_retryAfter ` set (rq_items q))" if "rq_items q \<noteq> []"
  proof -
    have "Min (ce_retryAfter ` set (rq_items q)) \<in> ce_retryAfter ` set (rq_items q)" using that by (intro Min_in) simp_all
    then show ?thesis by force
  qed
  then show ?thesis using inv by (fastforce simp: retryLoop_sleep_def max_def split: if_splits)
qed

definition demo_sleeping :: retry_queue where
  "demo_sleeping = (newRetryQueue 2)\<lparr>rq_items := [(demo_waiting 5)\<lparr>ce_retryOrder := 1\<rparr>], rq_sequence := 1\<rparr>"

text \<open>One retry due at 5 is scheduled, the loop consumes the notification and sleeps at time 3 with a delay of 10.\<close>

lemma demo_sleeping_run: "retry_reachable 10 2 3 (RSleep (Some 5)) demo_sleeping"
proof -
  have s: "retryQueue_schedule (demo_waiting 5) (newRetryQueue 2) = ((None, None), demo_sleeping\<lparr>rq_changed := True\<rparr>)"
    by (simp add: retryQueue_schedule_def newRetryQueue_def demo_sleeping_def demo_waiting_def heap_Push_def heap_up.simps
        wrap_uint64_def Let_def)
  have p0: "retryQueue_popDue 3 (newRetryQueue 2) = ((None, None, True), newRetryQueue 2)"
    by (simp add: retryQueue_popDue_def newRetryQueue_def)
  have p1: "retryQueue_popDue 3 demo_sleeping = ((None, Some 5, True), demo_sleeping)"
    by (simp add: retryQueue_popDue_def demo_sleeping_def newRetryQueue_def demo_waiting_def)
  have "retry_reachable 10 2 3 (RSleep None) (newRetryQueue 2)"
    using retry_reachable.loop [OF retry_reachable.start retry_step.sleep [OF p0]] by (simp add: retryLoop_sleep_def)
  from retry_reachable.schedule [OF this s] have "retry_reachable 10 2 3 (RSleep None) (demo_sleeping\<lparr>rq_changed := True\<rparr>)" .
  from retry_reachable.loop [OF this retry_step.changed] have "retry_reachable 10 2 3 RLook demo_sleeping"
    by (simp add: demo_sleeping_def newRetryQueue_def)
  from retry_reachable.loop [OF this retry_step.sleep [OF p1]] show ?thesis by (simp add: retryLoop_sleep_def)
qed

theorem retry_loop_in_time_witness:
  "retry_reachable 10 2 6 (RSleep (Some 5)) demo_sleeping \<and> \<not> rq_changed demo_sleeping \<and> (\<exists>t. Some (5 :: instant) = Some t \<and> t \<le> 6)"
proof -
  have run: "retry_reachable 10 2 6 (RSleep (Some 5)) demo_sleeping" using retry_reachable.tick [OF demo_sleeping_run] by simp
  have "\<not> rq_closed demo_sleeping" "\<not> rq_changed demo_sleeping" "\<exists>y \<in> set (rq_items demo_sleeping). ce_retryAfter y \<le> 6"
    by (simp_all add: demo_sleeping_def newRetryQueue_def demo_waiting_def)
  then show ?thesis using retry_loop_in_time [OF run] run by simp
qed

end
