(* ===== verification/Spec2Isabelle.thy ===== *)
theory Spec2Isabelle
  imports Delivery Publishing Replaying Lifecycle Queries Http_Serve Client_Lock Queue_Wakeup Retry_Wakeup
begin

text \<open>
  A verification of the SSE event bus of this repository (package \<^verbatim>\<open>sseeventbus\<close> and its \<^verbatim>\<open>httpadapter\<close>).

  \<^bold>\<open>The program.\<close> A \<^verbatim>\<open>Bus\<close> keeps clients (\<^verbatim>\<open>bus.go\<close>): an ID maps to a client generation, one
  registered connection with its send-order counters. \<^verbatim>\<open>Publish\<close> normalises and validates an event, converts its data once, finds the
  addressed and subscribed clients through the subscription registry (\<^verbatim>\<open>subscription.go\<close>), stores a copy per client in the
  replay store (\<^verbatim>\<open>replay.go\<close>) and puts one client event per active client on the bounded send queue (\<^verbatim>\<open>queue.go\<close>). Workers pop
  events, wait for the event's turn among the events of its client, and send it; a failed send goes to the retry queue
  (a heap by due time) and comes back to the send queue through the retry loop until it succeeds or its attempts
  are used up, when the client is retired and unregistered. Further loops expire idle clients, send heartbeats and purge the replay
  store. \<^verbatim>\<open>Close\<close> stops the loops, flushes the send queue and retires the clients. The HTTP adapter (\<^verbatim>\<open>httpadapter/http.go\<close>) is a
  connection that encodes messages as server-sent events, and \<^verbatim>\<open>Serve\<close> registers it for the duration of a request.

  \<^bold>\<open>The theories\<close>, in the order of their imports.

  \<^item> \<^verbatim>\<open>Prelude\<close>: errors with \<^verbatim>\<open>errors.Is\<close> and \<^verbatim>\<open>errors.Join\<close>, wrap-around of machine integers, map iteration orders, the
    in-place filter idiom, list lemmas. \<^verbatim>\<open>Sse_Event\<close>: \<^verbatim>\<open>event.go\<close>.
  \<^item> \<^verbatim>\<open>Subscription\<close>: \<^verbatim>\<open>subscription.go\<close>; the locale \<open>subscription_registry\<close> is the \<^verbatim>\<open>SubscriptionRegistry\<close> interface,
    interpreted by the in-memory registry. \<^verbatim>\<open>Replay\<close>: \<^verbatim>\<open>replay.go\<close>; the locale \<open>replay_store\<close> is the \<^verbatim>\<open>ReplayStore\<close> interface.
  \<^item> \<^verbatim>\<open>Turns\<close>: the order fields of a client (\<^verbatim>\<open>assignOrder\<close>, \<^verbatim>\<open>waitForTurn\<close>, \<^verbatim>\<open>finishTurn\<close>, \<^verbatim>\<open>cancelTurn\<close>) as a ticket dispenser, with
    its locale. \<^verbatim>\<open>Client\<close>: the rest of \<^verbatim>\<open>client\<close>, \<^verbatim>\<open>ClientEvent\<close>, \<^verbatim>\<open>retire\<close>, \<^verbatim>\<open>replaceWith\<close>, \<^verbatim>\<open>heartbeat\<close>, \<^verbatim>\<open>send\<close>; here are the heap of
    clients, the log of effects and the environment. \<^verbatim>\<open>Go_Heap\<close>: \<^verbatim>\<open>container/heap\<close> with a locale for its ordering.
    \<^verbatim>\<open>Send_Queue\<close> and \<^verbatim>\<open>Retry_Queue\<close>: \<^verbatim>\<open>queue.go\<close>, with the locale \<open>bounded_fifo\<close> for the send queue and a priority-queue
    contract for the retry queue. \<^verbatim>\<open>Options\<close>: \<^verbatim>\<open>options.go\<close> and the backoff.
  \<^item> \<^verbatim>\<open>Bus\<close>: the operations of \<^verbatim>\<open>bus.go\<close> that callers use (\<^verbatim>\<open>New\<close>, \<^verbatim>\<open>Publish\<close>, \<^verbatim>\<open>handle\<close>, \<^verbatim>\<open>RegisterContext\<close>, \<^verbatim>\<open>Disconnect\<close>, \<^verbatim>\<open>Unregister\<close>, replay,
    subscriptions, queries). \<^verbatim>\<open>Bus_Loops\<close>: one round of each background loop, \<^verbatim>\<open>attempt\<close>, and \<^verbatim>\<open>Close\<close>.
  \<^item> \<^verbatim>\<open>Tickets\<close>, \<^verbatim>\<open>Bus_Inv\<close>, \<^verbatim>\<open>Bus_Loops_Inv\<close>: the invariant \<open>bus_inv\<close> and that every operation and round keeps it.
  \<^item> \<^verbatim>\<open>System\<close>: the whole bus with its goroutines as a step relation; \<open>reachable\<close> states satisfy the invariant. \<^verbatim>\<open>Scenario\<close>: a
    concrete run for the witnesses.
  \<^item> \<^verbatim>\<open>Delivery\<close>, \<^verbatim>\<open>Publishing\<close>, \<^verbatim>\<open>Replaying\<close>, \<^verbatim>\<open>Lifecycle\<close>, \<^verbatim>\<open>Queries\<close>: the properties of the bus.
  \<^item> \<^verbatim>\<open>Client_Lock\<close> (\<^verbatim>\<open>lockClientContext\<close>), \<^verbatim>\<open>Queue_Wakeup\<close> (the waiting in \<^verbatim>\<open>push\<close> and \<^verbatim>\<open>pop\<close>) and \<^verbatim>\<open>Retry_Wakeup\<close> (the waiting of
    \<^verbatim>\<open>retryLoop\<close>): the synchronisation protocols, as step relations over any number of goroutines.
  \<^item> \<^verbatim>\<open>Http_Frame\<close>, \<^verbatim>\<open>Http_Connection\<close>, \<^verbatim>\<open>Http_Serve\<close>: \<^verbatim>\<open>httpadapter/http.go\<close>; a parser of the event-stream format is the
    specification of the frames.

  \<^bold>\<open>How the model reads.\<close> A Go struct is a record, a pointer to a client an index into the heap. An operation maps a bus to a
  result and a bus; every error return is a branch. Where an operation can block on queue space or a turn, the result says so
  (\<^verbatim>\<open>Blocked\<close>, \<^verbatim>\<open>PushWait\<close>, \<^verbatim>\<open>None\<close>). Whatever lies outside the repository is a field of the environment and answers as a function of the
  log: connections, listeners that panic, the clock, JSON encoding, the distributed transport, the order of ranging over a map.
  Theorems hold for every environment. \<^verbatim>\<open>System\<close> interleaves the goroutines: the operations of callers as a caller sees them, the
  rounds of the loops, and (\<open>section_step\<close>) every critical section of an operation as a step of its own, so that a publish
  to several clients, a registration or a removal may be interrupted between any two of its sections. A worker's attempt, with its turn or
  (for a retry that a full retry queue handed back) without one, may overlap with everything else. \<^verbatim>\<open>RegisterContext\<close> is composed of its
  phases (\<open>register_arguments\<close>, \<open>register_locked\<close>, \<open>register_prepare\<close>, \<open>register_commit\<close>) and \<^verbatim>\<open>Close\<close> of its four critical sections
  (\<open>close_flag\<close>, \<open>close_sendQueue\<close>, \<open>close_retryQueue\<close>, \<open>close_stop\<close>), which are steps of their own as well: a bus can be closed
  and not yet stopped, and still accept a publish. The shutdown goroutine is one function, run when all others have ended; \<^verbatim>\<open>retire\<close> sets its
  flag and makes the call of the connection's \<^verbatim>\<open>Close\<close> that it then owes in one step (the code releases the client's mutex between the two).

  \<^bold>\<open>What is shown.\<close> No deadlock and per-client order of the workers (C1 to C3), lifecycle of connections (C4), bounded queues (C5), shutdown (C6, C7);
  who receives a published event and what is retained (C8 to C10); registration, disconnection, removal, expiration, retries (C11 to C18);
  replay (C19); the HTTP handler and frames (C20 to C24, C35); the components against their contracts (C25 to C27, C29 to C34, C36, C37);
  wake-ups and client locks (C28, C38 to C40). C38 is a defect: a publisher whose context ends can swallow the notification another
  publisher waits for.

  \<^bold>\<open>Bounds.\<close> Send orders are 64-bit counters; the step relation requires room below the maximum (\<open>orders_room\<close>), since the code
  would reuse order 0 after \<open>2 ^ 64\<close> events to one client. Attempts are counted in 32 bits and bounded by the configuration. The loops
  of \<^verbatim>\<open>container/heap\<close> terminate by a measure, the flush of \<^verbatim>\<open>Close\<close> is proved to return; no fuel is used.

  \<^bold>\<open>Not modelled.\<close> The interfaces of \<^verbatim>\<open>extension.go\<close> have no code of their own. Custom registries and replay stores enter through
  the locales; the bus model uses the in-memory ones. Timers, \<^verbatim>\<open>context.WithTimeout\<close>, \<^verbatim>\<open>encoding/json\<close> and \<^verbatim>\<open>net/http\<close> are parameters. The memory model below
  critical sections is not modelled, nor is the quoting that \<^verbatim>\<open>%q\<close> adds to names in error texts.
\<close>

section \<open>Publishing to an HTTP client\<close>

text \<open>C24. An event the bus accepts reaches the reader of an HTTP stream: when \<^verbatim>\<open>Publish\<close> finds an event valid, the message built
  from it passes the connection's own check; on an open connection with a live request whose writer, flusher and deadline work,
  \<^verbatim>\<open>Send\<close> succeeds, the connection stays open and exactly one frame is written, and an event-stream parser between two events reads
  that frame as this event: its name, the converted data with line breaks normalised, its ID and its retry time.\<close>

theorem valid_event_encodable:
  fixes e :: event and converted :: string and hasConverted :: bool
  defines "m \<equiv> event_message (normalizeEvent e) converted hasConverted"
  assumes valid: "validateEvent e = None" and conn: "\<not> hc_closed c" "\<not> he_requestDone env (hc_log c)"
    and writer: "\<forall>h f. he_write env h f = (int (length f), None)" "\<forall>h. he_flush env h = None" "\<forall>h arm. he_setWriteDeadline env h arm = None"
    and parser: "sp_type p = []" "sp_data p = []" and send: "connection_Send env m c = (r, c')"
  shows "validateMessage m = None \<and> r = None \<and> \<not> hc_closed c' \<and>
    (\<exists>frame. writes (hc_log c') = writes (hc_log c) @ [frame] \<and> sse_parse frame p = received m p) \<and>
    sp_dispatched (received m p) = sp_dispatched p @
      (if hasConverted
       then [\<lparr>se_type = ev_Name (normalizeEvent e), se_data = replace_cr (replace_crlf converted),
              se_lastEventId = (if ev_ID e = [] then sp_lastEventId p else ev_ID e)\<rparr>] else []) \<and>
    sp_lastEventId (received m p) = (if ev_ID e = [] then sp_lastEventId p else ev_ID e) \<and>
    sp_retry (received m p) = (if 0 < ev_Retry e then Some (nat (ev_Retry e div 1000000)) else sp_retry p)"
proof -
  have m: "validateMessage m = None"
    using valid unfolding m_def
    by (simp add: validateMessage_None_iff validateEvent_None_iff event_message_def no_breaks_def DefaultEvent_def)
  have w: "fst (connection_writeFrame env (encodeMessage m) c) = None"
    using writer by (simp add: connection_writeFrame_def write_and_flush_def flush_response_def set_deadline_def case_prod_unfold Let_def)
  obtain c1 where c1: "connection_writeFrame env (encodeMessage m) c = (None, c1)" using w by (metis prod.collapse)
  note spec = connection_writeFrame_spec [OF c1 conn(1)]
  obtain calls where calls: "hc_log c1 = hc_log c @ calls" "frame_trace (hc_writeTimeout c > 0) (encodeMessage m) calls None"
    using spec(3) by blast
  have "r = None" "c' = c1" using send conn m c1 by (auto simp: connection_Send_def)
  moreover have "sse_parse (encodeMessage m) p = received m p" using sse_roundtrip [OF m parser] by blast
  ultimately show ?thesis
    using m spec(1) calls(1) frame_trace_writes(2) [OF calls(2)]
    by (simp add: received_def m_def event_message_def DefaultEvent_def Let_def)
qed

theorem valid_event_encodable_witness:
  "fst (connection_Send good_writer (event_message (normalizeEvent demo_event) ''hi'' True) open_conn) = None \<and>
   (\<exists>frame. writes (hc_log (snd (connection_Send good_writer (event_message (normalizeEvent demo_event) ''hi'' True) open_conn))) = [frame] \<and>
     sp_dispatched (sse_parse frame fresh_parser) = [\<lparr>se_type = ''x'', se_data = ''hi'', se_lastEventId = []\<rparr>])"
proof -
  obtain r c' where s: "connection_Send good_writer (event_message (normalizeEvent demo_event) ''hi'' True) open_conn = (r, c')" by fastforce
  have "\<not> hc_closed open_conn" "hc_log open_conn = []" by (simp_all add: open_conn_def)
  then show ?thesis
    using valid_event_encodable [OF demo_valid _ _ _ _ _ _ _ s, of fresh_parser] s
    by (auto simp: good_writer_def fresh_parser_def demo_normal replace_cr_def)
qed

section \<open>A new bus\<close>

text \<open>C32. \<^verbatim>\<open>New\<close> with options of the package either reports an error or returns a bus whose configuration is
  sound and that is empty and open. It starts exactly the configured goroutines: on an asynchronous bus the configured number of workers and
  one retry loop, on a synchronous bus none of them; one expiration loop exactly when an expiration is set, one heartbeat loop
  exactly when a heartbeat interval is set, one cleanup loop exactly when there is a replay store. Every
  ticker these create has a positive period, so \<^verbatim>\<open>time.NewTicker\<close> does not panic.\<close>

theorem new_bus_sound:
  assumes opts: "\<forall>f. Some f \<in> set options \<longrightarrow> package_option f" and new: "New options consumerErr = Inr (b, gs)"
  shows "config_ok (b_config b) \<and> dom (b_clients b) = {} \<and> queued (b_sendQueue b) = [] \<and> rq_items (b_retryQueue b) = [] \<and>
    \<not> b_closed b \<and> bus_inv ([], [], []) b \<and>
    count_list gs Worker = (if cfg_synchronous (b_config b) then 0 else nat (cfg_workers (b_config b))) \<and>
    count_list gs RetryLoop = (if cfg_synchronous (b_config b) then 0 else 1) \<and>
    count_list gs ExpirationLoop = (if 0 < cfg_expiration (b_config b) then 1 else 0) \<and>
    count_list gs HeartbeatLoop = (if 0 < cfg_heartbeatInterval (b_config b) then 1 else 0) \<and>
    count_list gs ReplayCleanupLoop = (if cfg_replayStore (b_config b) \<noteq> None then 1 else 0) \<and>
    0 < cfg_schedulerDelay (b_config b) \<and>
    (ExpirationLoop \<in> set gs \<longrightarrow> 0 < cfg_expirationScan (b_config b)) \<and>
    (HeartbeatLoop \<in> set gs \<longrightarrow> 0 < cfg_heartbeatInterval (b_config b)) \<and>
    (ReplayCleanupLoop \<in> set gs \<longrightarrow> 0 < cfg_replayCleanup (b_config b))"
proof -
  obtain c where c: "apply_options options defaultConfig = Inr c" and b: "b = initial_bus c" "gs = started_goroutines c"
    using new by (auto simp: New_def split: sum.splits option.splits if_splits)
  have ok: "config_ok c" by (rule apply_options_ok [OF opts config_ok_default c])
  have rep: "count_list (replicate n x) y = (if x = y then n else 0)" for n and x y :: goroutine
    by (induction n) auto
  have "count_list gs Worker = (if cfg_synchronous c then 0 else nat (cfg_workers c))"
    "count_list gs RetryLoop = (if cfg_synchronous c then 0 else 1)"
    "count_list gs ExpirationLoop = (if 0 < cfg_expiration c then 1 else 0)"
    "count_list gs HeartbeatLoop = (if 0 < cfg_heartbeatInterval c then 1 else 0)"
    "count_list gs ReplayCleanupLoop = (if cfg_replayStore c \<noteq> None then 1 else 0)"
    by (simp_all add: b(2) started_goroutines_def rep)
  moreover have "ExpirationLoop \<in> set gs \<longrightarrow> 0 < cfg_expirationScan c"
      "HeartbeatLoop \<in> set gs \<longrightarrow> 0 < cfg_heartbeatInterval c" "ReplayCleanupLoop \<in> set gs \<longrightarrow> 0 < cfg_replayCleanup c"
      "0 < cfg_schedulerDelay c"
    using ok by (auto simp: b(2) started_goroutines_def config_ok_def)
  moreover have "b_config b = c" "dom (b_clients b) = {}" "queued (b_sendQueue b) = []" "rq_items (b_retryQueue b) = []" "\<not> b_closed b"
    by (simp_all add: b(1) initial_bus_def newEventQueue_def newRetryQueue_def queued_def)
  ultimately show ?thesis using ok bus_inv_initial [OF ok] b(1) by simp
qed

theorem new_bus_sound_witness:
  "config_ok (b_config demo_bus0) \<and> \<not> b_closed demo_bus0 \<and>
   count_list (started_goroutines (defaultConfig\<lparr>cfg_workers := 2\<rparr>)) Worker = 2"
proof -
  have "\<forall>f. Some f \<in> set [Some (WithWorkerCount 2)] \<longrightarrow> package_option f" by (auto intro: package_option.intros)
  note N = new_bus_sound [OF this demo_New]
  moreover have "cfg_workers (b_config demo_bus0) = 2" "\<not> cfg_synchronous (b_config demo_bus0)"
    by (simp_all add: demo_bus0_def initial_bus_def defaultConfig_def)
  ultimately show ?thesis by simp
qed

end
